theory Spec2Isabelle
  imports Main "HOL-Library.Sublist"
begin

section \<open>GuardianAI: a naming-policy watchdog\<close>

text \<open>
  The repository holds two variants of one program, \<^verbatim>\<open>guardianAI.py\<close> and
  \<^verbatim>\<open>guardianAI2.py\<close>. A watchdog handler receives a created or moved path, asks a
  language model whether the name holds a personal name, and on a positive verdict
  deletes the entry (\<^verbatim>\<open>delete_path\<close>) and sends a pop-up message to the owner
  (\<^verbatim>\<open>send_msg_to_user\<close>).

  Everything the program does is an effect on its surroundings, so the embedding passes
  an explicit \<open>world\<close>: the file system, the answers of the collaborators the program
  calls (security API, language model, \<^verbatim>\<open>msg\<close> command), a clock advanced by
  \<^verbatim>\<open>time.sleep\<close>, and the trace of what the program printed, slept and ran.
  A procedure is a function \<open>world \<Rightarrow> (exn + 'a) \<times> world\<close>: \<open>Inl\<close> is a raised
  exception, and the world that comes back holds the effects made before it was raised.
\<close>

subsection \<open>Paths\<close>

text \<open>
  A path is the list of its components below the root of the name space, so
  \<^verbatim>\<open>os.path.basename\<close> is the last component and \<^verbatim>\<open>os.path.join(dir, name)\<close> appends one.
\<close>

type_synonym path = "string list"

definition basename :: "path \<Rightarrow> string" where
  "basename p = (if p = [] then [] else last p)"

definition join :: "path \<Rightarrow> string \<Rightarrow> path" where
  "join d name = d @ [name]"

subsection \<open>Exceptions, log lines and the trace\<close>

datatype errno = ENOENT | EEXIST | ENOTDIR | ENOTEMPTY | EACCES | EINVAL | EBUSY

text \<open>
  The exceptions the program can meet. \<open>OSError\<close> is what the \<^verbatim>\<open>os\<close> functions raise,
  \<open>ShutilError\<close> is \<^verbatim>\<open>shutil.Error\<close>, \<open>TransportError\<close> and \<open>OracleTimeout\<close> are the
  failures of the call to the language model, \<open>Win32Error\<close> is the failure of the
  security API. All of them are subclasses of \<^verbatim>\<open>Exception\<close>.
\<close>

datatype exn =
    OSError errno
  | ShutilError
  | ValueError
  | JSONDecodeError
  | AttributeError
  | CalledProcessError
  | TransportError
  | OracleTimeout
  | Win32Error

text \<open>One constructor for each \<^verbatim>\<open>print\<close> statement of the source, with its arguments.\<close>

datatype log_line =
    Warn_owner path exn                \<comment> \<open>\<^verbatim>\<open>[WARNING] Could not get owner for {path}: {e}\<close>\<close>
  | Err_llm string exn                 \<comment> \<open>\<^verbatim>\<open>[ERROR] LLM call failed for '{name}': {e}\<close>\<close>
  | Info_sent string string            \<comment> \<open>\<^verbatim>\<open>[INFO] Sent message to\<close> user at machine\<close>
  | Err_msg exn                        \<comment> \<open>\<^verbatim>\<open>[ERROR] Failed to send msg: {e}\<close>\<close>
  | Act_fixed path                     \<comment> \<open>\<^verbatim>\<open>[ACTION] Fixed permissions and removed: {path}\<close>\<close>
  | Err_could_not_remove path exn      \<comment> \<open>\<^verbatim>\<open>[ERROR] Could not remove {path}: {e}\<close>\<close>
  | Info_not_exist path                \<comment> \<open>\<^verbatim>\<open>[INFO] Path does not exist: {path}\<close>\<close>
  | Warn_perms exn                     \<comment> \<open>\<^verbatim>\<open>[WARNING] Could not modify permissions: {e}\<close>\<close>
  | Act_deleted bool path              \<comment> \<open>\<^verbatim>\<open>[ACTION] Successfully deleted {folder|file}: {path}\<close>\<close>
  | Warn_attempt int path exn          \<comment> \<open>\<^verbatim>\<open>[WARNING] Attempt {attempt} failed to delete {path}: {e}\<close>\<close>
  | Act_quarantined path               \<comment> \<open>\<^verbatim>\<open>[ACTION] Moved to quarantine folder: {quarantine_path}\<close>\<close>
  | Err_quarantine exn                 \<comment> \<open>\<^verbatim>\<open>[ERROR] Failed to move to quarantine: {move_err}\<close>\<close>
  | Err_failed path int                \<comment> \<open>\<^verbatim>\<open>[ERROR] Failed to delete {path} after {max_retries} attempts.\<close>\<close>
  | Detected string string string      \<comment> \<open>\<^verbatim>\<open>{typ} detected: {name} (Owner: {owner})\<close>\<close>
  | Warn_invalid_json string string    \<comment> \<open>\<^verbatim>\<open>[WARNING] Invalid JSON from LLM for '{name}': {raw_response}\<close>\<close>
  | Alert string string string         \<comment> \<open>\<^verbatim>\<open>[ALERT] Personal name found in {typ} name: '{name}' (Owner: {owner})\<close>\<close>
  | Warn_no_mapping string             \<comment> \<open>\<^verbatim>\<open>[WARNING] No client machine mapping found for user {owner}, ...\<close>\<close>
  | Info_clean string string           \<comment> \<open>\<^verbatim>\<open>[INFO] No personal name detected in {typ} name: '{name}'\<close>\<close>

text \<open>
  What an observer of the process sees, in order: a printed line, a call of
  \<^verbatim>\<open>time.sleep\<close> with its argument, a command handed to \<^verbatim>\<open>subprocess.run\<close>.
\<close>

datatype event = Print log_line | Sleep int | Run "string list"

subsection \<open>The file system\<close>

text \<open>
  A file-system entry is a file or a directory with its named children; the flag is the
  read-only attribute, the only thing \<^verbatim>\<open>os.chmod\<close> changes on Windows, the platform the
  program is written for (it imports \<^verbatim>\<open>win32security\<close> and runs \<^verbatim>\<open>msg\<close>).
\<close>

datatype node = File bool | Dir bool "(string \<times> node) list"

fun is_dir :: "node \<Rightarrow> bool" where
  "is_dir (Dir ro cs) = True"
| "is_dir (File ro) = False"

fun read_only :: "node \<Rightarrow> bool" where
  "read_only (Dir ro cs) = ro"
| "read_only (File ro) = ro"

fun set_read_only :: "bool \<Rightarrow> node \<Rightarrow> node" where
  "set_read_only b (Dir ro cs) = Dir b cs"
| "set_read_only b (File ro) = File b"

fun lookup :: "node option \<Rightarrow> path \<Rightarrow> node option" where
  "lookup n [] = n"
| "lookup (Some (Dir ro cs)) (x # xs) = lookup (map_of cs x) xs"
| "lookup n (x # xs) = None"

fun set_child :: "string \<Rightarrow> node option \<Rightarrow> (string \<times> node) list \<Rightarrow> (string \<times> node) list" where
  "set_child x None cs = filter (\<lambda>c. fst c \<noteq> x) cs"
| "set_child x (Some n) cs =
     (case map_of cs x of
        None \<Rightarrow> cs @ [(x, n)]
      | Some old \<Rightarrow> map (\<lambda>c. if fst c = x then (x, n) else c) cs)"

text \<open>
  \<open>alter f p\<close> replaces the entry at \<open>p\<close> (\<open>None\<close> when there is none) by \<open>f\<close> of it.
  Nothing changes when \<open>p\<close> passes through something that is not a directory.
\<close>

fun alter :: "(node option \<Rightarrow> node option) \<Rightarrow> path \<Rightarrow> node option \<Rightarrow> node option" where
  "alter f [] n = f n"
| "alter f (x # xs) (Some (Dir ro cs)) =
     Some (Dir ro (set_child x (alter f xs (map_of cs x)) cs))"
| "alter f (x # xs) n = n"

datatype fsop = OpChmod | OpUnlink | OpRmdir | OpScandir | OpMkdir | OpRename

text \<open>
  The world. \<open>fault\<close> says which primitive file operations the operating system refuses
  at which time, for reasons the tree does not show (an open handle, an access-control
  entry): it makes every failure the program guards against possible, permanent or
  passing. \<open>security\<close> is the answer of the security API for a path (account name and
  domain), \<open>llm\<close> the reply of the language model to a name, \<open>msg_exit\<close> the outcome of
  the \<^verbatim>\<open>msg\<close> command.
\<close>

record world =
  fs :: node
  fault :: "fsop \<Rightarrow> path \<Rightarrow> nat \<Rightarrow> errno option"
  clock :: nat
  trace :: "event list"
  security :: "path \<Rightarrow> exn + (string \<times> string)"
  llm :: "string \<Rightarrow> exn + string"
  msg_exit :: "string list \<Rightarrow> exn option"

definition print :: "log_line \<Rightarrow> world \<Rightarrow> world" where
  "print l w = w\<lparr>trace := trace w @ [Print l]\<rparr>"

definition node_at :: "world \<Rightarrow> path \<Rightarrow> node option" where
  "node_at w p = lookup (Some (fs w)) p"

definition put_fs :: "(node option \<Rightarrow> node option) \<Rightarrow> path \<Rightarrow> world \<Rightarrow> world" where
  "put_fs f p w = (case alter f p (Some (fs w)) of Some r \<Rightarrow> w\<lparr>fs := r\<rparr> | None \<Rightarrow> w)"

subsection \<open>The library functions the program calls\<close>

text \<open>
  These follow the documentation of the Python standard library on Windows. A primitive
  operation that fails leaves the world as it was.
\<close>

definition os_path_exists :: "path \<Rightarrow> world \<Rightarrow> bool" where
  "os_path_exists p w = (node_at w p \<noteq> None)"

definition os_path_isdir :: "path \<Rightarrow> world \<Rightarrow> bool" where
  "os_path_isdir p w = (case node_at w p of Some n \<Rightarrow> is_dir n | None \<Rightarrow> False)"

text \<open>\<^verbatim>\<open>stat.S_IWRITE\<close> is \<open>0o200\<close>; a mode with that bit clears the read-only attribute.\<close>

definition S_IWRITE :: nat where
  "S_IWRITE = 128"

definition writable :: "nat \<Rightarrow> bool" where
  "writable mode = ((mode div 128) mod 2 = 1)"

definition os_chmod :: "path \<Rightarrow> nat \<Rightarrow> world \<Rightarrow> (exn + unit) \<times> world" where
  "os_chmod p mode w =
     (case node_at w p of
        None \<Rightarrow> (Inl (OSError ENOENT), w)
      | Some n \<Rightarrow>
          (case fault w OpChmod p (clock w) of
             Some e \<Rightarrow> (Inl (OSError e), w)
           | None \<Rightarrow> (Inr (), put_fs (map_option (set_read_only (\<not> writable mode))) p w)))"

text \<open>\<^verbatim>\<open>os.remove\<close> and \<^verbatim>\<open>os.unlink\<close> are one function; it refuses directories.\<close>

definition os_unlink :: "path \<Rightarrow> world \<Rightarrow> (exn + unit) \<times> world" where
  "os_unlink p w =
     (case node_at w p of
        None \<Rightarrow> (Inl (OSError ENOENT), w)
      | Some (Dir ro cs) \<Rightarrow> (Inl (OSError EACCES), w)
      | Some (File ro) \<Rightarrow>
          if p = [] then (Inl (OSError EBUSY), w)
          else if ro then (Inl (OSError EACCES), w)
          else (case fault w OpUnlink p (clock w) of
                  Some e \<Rightarrow> (Inl (OSError e), w)
                | None \<Rightarrow> (Inr (), put_fs (\<lambda>n. None) p w)))"

definition os_remove :: "path \<Rightarrow> world \<Rightarrow> (exn + unit) \<times> world" where
  "os_remove = os_unlink"

definition os_rmdir :: "path \<Rightarrow> world \<Rightarrow> (exn + unit) \<times> world" where
  "os_rmdir p w =
     (case node_at w p of
        None \<Rightarrow> (Inl (OSError ENOENT), w)
      | Some (File ro) \<Rightarrow> (Inl (OSError ENOTDIR), w)
      | Some (Dir ro cs) \<Rightarrow>
          if cs \<noteq> [] then (Inl (OSError ENOTEMPTY), w)
          else if p = [] then (Inl (OSError EBUSY), w)
          else if ro then (Inl (OSError EACCES), w)
          else (case fault w OpRmdir p (clock w) of
                  Some e \<Rightarrow> (Inl (OSError e), w)
                | None \<Rightarrow> (Inr (), put_fs (\<lambda>n. None) p w)))"

definition os_mkdir :: "path \<Rightarrow> world \<Rightarrow> (exn + unit) \<times> world" where
  "os_mkdir p w =
     (if p = [] \<or> os_path_exists p w then (Inl (OSError EEXIST), w)
      else (case node_at w (butlast p) of
              None \<Rightarrow> (Inl (OSError ENOENT), w)
            | Some (File ro) \<Rightarrow> (Inl (OSError ENOTDIR), w)
            | Some (Dir ro cs) \<Rightarrow>
                (case fault w OpMkdir p (clock w) of
                   Some e \<Rightarrow> (Inl (OSError e), w)
                 | None \<Rightarrow> (Inr (), put_fs (\<lambda>n. Some (Dir False [])) p w))))"

text \<open>
  \<^verbatim>\<open>os.makedirs(name, exist_ok=True)\<close>: make the parent first when it is missing
  (ignoring \<^verbatim>\<open>FileExistsError\<close> from that), then \<^verbatim>\<open>mkdir(name)\<close>, whose error is dropped
  when \<open>name\<close> is a directory. The argument is the path reversed, so that the recursion
  on the parent is structural.
\<close>

fun makedirs_rev :: "string list \<Rightarrow> world \<Rightarrow> (exn + unit) \<times> world" where
  "makedirs_rev [] w = (Inr (), w)"
| "makedirs_rev (tail # rhead) w =
     (case (if rhead \<noteq> [] \<and> \<not> os_path_exists (rev rhead) w
            then (case makedirs_rev rhead w of
                    (Inl (OSError EEXIST), w1) \<Rightarrow> (Inr (), w1)
                  | r \<Rightarrow> r)
            else (Inr (), w)) of
        (Inl e, w1) \<Rightarrow> (Inl e, w1)
      | (Inr u, w1) \<Rightarrow>
          (case os_mkdir (rev (tail # rhead)) w1 of
             (Inl e, w2) \<Rightarrow>
               if os_path_isdir (rev (tail # rhead)) w2 then (Inr (), w2) else (Inl e, w2)
           | (Inr u, w2) \<Rightarrow> (Inr (), w2)))"

definition os_makedirs :: "path \<Rightarrow> world \<Rightarrow> (exn + unit) \<times> world" where
  "os_makedirs name w = makedirs_rev (rev name) w"

text \<open>
  \<^verbatim>\<open>os.rename\<close>: renaming an entry to its own name does nothing; an existing destination
  is refused (\<^verbatim>\<open>FileExistsError\<close> on Windows), and so is a destination inside the source.
\<close>

definition os_rename :: "path \<Rightarrow> path \<Rightarrow> world \<Rightarrow> (exn + unit) \<times> world" where
  "os_rename src dst w =
     (case node_at w src of
        None \<Rightarrow> (Inl (OSError ENOENT), w)
      | Some n \<Rightarrow>
          if src = dst then (Inr (), w)
          else if os_path_exists dst w then (Inl (OSError EEXIST), w)
          else if prefix src dst then (Inl (OSError EINVAL), w)
          else if \<not> os_path_isdir (butlast dst) w then (Inl (OSError ENOENT), w)
          else (case fault w OpRename src (clock w) of
                  Some e \<Rightarrow> (Inl (OSError e), w)
                | None \<Rightarrow> (Inr (), put_fs (\<lambda>m. Some n) dst (put_fs (\<lambda>m. None) src w))))"

text \<open>
  \<^verbatim>\<open>shutil.move(src, dst)\<close>: a destination that is a directory receives the entry under
  the source's base name, unless that name is taken there; then \<^verbatim>\<open>os.rename\<close>. The
  copy-and-delete path that \<^verbatim>\<open>shutil.move\<close> falls back to when \<^verbatim>\<open>os.rename\<close> raises (a
  destination on another volume) is left out: here a rename that raises makes the move
  raise. The result is the path the entry ends at.
\<close>

definition shutil_move :: "path \<Rightarrow> path \<Rightarrow> world \<Rightarrow> (exn + path) \<times> world" where
  "shutil_move src dst w =
     (if os_path_isdir dst w then
        (if src = dst then
           (case os_rename src dst w of
              (Inl e, w1) \<Rightarrow> (Inl e, w1)
            | (Inr u, w1) \<Rightarrow> (Inr dst, w1))
         else if os_path_exists (join dst (basename src)) w then (Inl ShutilError, w)
         else (case os_rename src (join dst (basename src)) w of
                 (Inl e, w1) \<Rightarrow> (Inl e, w1)
               | (Inr u, w1) \<Rightarrow> (Inr (join dst (basename src)), w1)))
      else (case os_rename src dst w of
              (Inl e, w1) \<Rightarrow> (Inl e, w1)
            | (Inr u, w1) \<Rightarrow> (Inr dst, w1)))"

text \<open>\<^verbatim>\<open>time.sleep\<close> raises \<^verbatim>\<open>ValueError\<close> on a negative argument.\<close>

definition slept :: "int \<Rightarrow> world \<Rightarrow> world" where
  "slept secs w = w\<lparr>clock := clock w + nat secs, trace := trace w @ [Sleep secs]\<rparr>"

definition time_sleep :: "int \<Rightarrow> world \<Rightarrow> (exn + unit) \<times> world" where
  "time_sleep secs w = (if secs < 0 then (Inl ValueError, w) else (Inr (), slept secs w))"

text \<open>
  \<^verbatim>\<open>os.walk(top)\<close> as the program uses it: for every directory it can list, top-down, the
  loop body changes the mode of the sub-directories, then of the files. A directory
  that cannot be listed is passed over in silence (\<^verbatim>\<open>onerror=None\<close>). \<open>walk_targets\<close> is
  the list of paths the loop body reaches, in that order.
\<close>

fun walk_targets :: "(path \<Rightarrow> bool) \<Rightarrow> path \<Rightarrow> node \<Rightarrow> path list" where
  "walk_targets unreadable p (File ro) = []"
| "walk_targets unreadable p (Dir ro cs) =
     (if unreadable p then []
      else map (\<lambda>c. join p (fst c)) (filter (\<lambda>c. is_dir (snd c)) cs)
         @ map (\<lambda>c. join p (fst c)) (filter (\<lambda>c. \<not> is_dir (snd c)) cs)
         @ concat (map (\<lambda>c. walk_targets unreadable (join p (fst c)) (snd c)) cs))"

definition os_walk :: "path \<Rightarrow> world \<Rightarrow> path list" where
  "os_walk start w =
     (case node_at w start of
        None \<Rightarrow> []
      | Some n \<Rightarrow> walk_targets (\<lambda>p. fault w OpScandir p (clock w) \<noteq> None) start n)"

text \<open>
  \<^verbatim>\<open>shutil.rmtree(path, onerror=handler)\<close>: list the directory, remove what it holds
  (directories by recursion, the rest by \<^verbatim>\<open>os.unlink\<close>), then \<^verbatim>\<open>os.rmdir\<close> the directory
  itself. An \<^verbatim>\<open>OSError\<close> of any of these calls goes to the handler with the function
  that failed and the path, and the walk goes on; only what the handler raises leaves
  \<^verbatim>\<open>rmtree\<close>. The recursion follows the entries found when \<^verbatim>\<open>rmtree\<close> was called.
\<close>

datatype rmfunc = Fscandir | Funlink | Frmdir

type_synonym handler = "rmfunc \<Rightarrow> path \<Rightarrow> exn \<Rightarrow> world \<Rightarrow> (exn + unit) \<times> world"

definition try_rmdir :: "handler \<Rightarrow> path \<Rightarrow> world \<Rightarrow> (exn + unit) \<times> world" where
  "try_rmdir onerror p w =
     (case os_rmdir p w of
        (Inl e, w1) \<Rightarrow> onerror Frmdir p e w1
      | (Inr u, w1) \<Rightarrow> (Inr (), w1))"

definition try_unlink :: "handler \<Rightarrow> path \<Rightarrow> world \<Rightarrow> (exn + unit) \<times> world" where
  "try_unlink onerror p w =
     (case os_unlink p w of
        (Inl e, w1) \<Rightarrow> onerror Funlink p e w1
      | (Inr u, w1) \<Rightarrow> (Inr (), w1))"

fun rmtree_unsafe :: "handler \<Rightarrow> path \<Rightarrow> node \<Rightarrow> world \<Rightarrow> (exn + unit) \<times> world"
  and rmtree_entries :: "handler \<Rightarrow> path \<Rightarrow> (string \<times> node) list \<Rightarrow> world \<Rightarrow> (exn + unit) \<times> world"
where
  "rmtree_unsafe onerror p (File ro) w =
     (case onerror Fscandir p (OSError ENOTDIR) w of
        (Inl e, w1) \<Rightarrow> (Inl e, w1)
      | (Inr u, w1) \<Rightarrow> try_rmdir onerror p w1)"
| "rmtree_unsafe onerror p (Dir ro cs) w =
     (case (case fault w OpScandir p (clock w) of
              Some e \<Rightarrow> onerror Fscandir p (OSError e) w
            | None \<Rightarrow> rmtree_entries onerror p cs w) of
        (Inl e, w1) \<Rightarrow> (Inl e, w1)
      | (Inr u, w1) \<Rightarrow> try_rmdir onerror p w1)"
| "rmtree_entries onerror p [] w = (Inr (), w)"
| "rmtree_entries onerror p (c # rest) w =
     (case (if is_dir (snd c) then rmtree_unsafe onerror (join p (fst c)) (snd c) w
            else try_unlink onerror (join p (fst c)) w) of
        (Inl e, w1) \<Rightarrow> (Inl e, w1)
      | (Inr u, w1) \<Rightarrow> rmtree_entries onerror p rest w1)"

definition shutil_rmtree :: "path \<Rightarrow> handler \<Rightarrow> world \<Rightarrow> (exn + unit) \<times> world" where
  "shutil_rmtree p onerror w =
     (case node_at w p of
        None \<Rightarrow>
          (case onerror Fscandir p (OSError ENOENT) w of
             (Inl e, w1) \<Rightarrow> (Inl e, w1)
           | (Inr u, w1) \<Rightarrow> try_rmdir onerror p w1)
      | Some n \<Rightarrow> rmtree_unsafe onerror p n w)"

subsection \<open>\<^verbatim>\<open>WatcherHandler.on_rm_error\<close>\<close>

text \<open>
  The error handler given to \<^verbatim>\<open>shutil.rmtree\<close>, the same text in both files: clear the
  read-only attribute, remove the entry by \<^verbatim>\<open>os.rmdir\<close> or \<^verbatim>\<open>os.unlink\<close>, print one line.
  Its \<^verbatim>\<open>except Exception\<close> takes every exception of the three calls.
\<close>

definition on_rm_error :: handler where
  "on_rm_error func path exc_info w =
     (case os_chmod path S_IWRITE w of
        (Inl e, w1) \<Rightarrow> (Inr (), print (Err_could_not_remove path e) w1)
      | (Inr u, w1) \<Rightarrow>
          (case (if os_path_isdir path w1 then os_rmdir path w1 else os_unlink path w1) of
             (Inl e, w2) \<Rightarrow> (Inr (), print (Err_could_not_remove path e) w2)
           | (Inr u, w2) \<Rightarrow> (Inr (), print (Act_fixed path) w2)))"

subsection \<open>\<^verbatim>\<open>WatcherHandler.delete_path\<close>\<close>

fun chmod_each :: "path list \<Rightarrow> nat \<Rightarrow> world \<Rightarrow> (exn + unit) \<times> world" where
  "chmod_each [] mode w = (Inr (), w)"
| "chmod_each (p # ps) mode w =
     (case os_chmod p mode w of
        (Inl e, w1) \<Rightarrow> (Inl e, w1)
      | (Inr u, w1) \<Rightarrow> chmod_each ps mode w1)"

text \<open>
  The inner \<^verbatim>\<open>try\<close> of an attempt: set mode \<open>0o777\<close> (511) on everything \<^verbatim>\<open>os.walk\<close> reaches
  and on the path itself, or on the path alone for a file. The first exception ends it
  with a warning; what was changed before stays changed.
\<close>

definition fix_permissions :: "path \<Rightarrow> bool \<Rightarrow> world \<Rightarrow> world" where
  "fix_permissions path is_folder w =
     (case (if is_folder then
              (case chmod_each (os_walk path w) 511 w of
                 (Inl e, w1) \<Rightarrow> (Inl e, w1)
               | (Inr u, w1) \<Rightarrow> os_chmod path 511 w1)
            else os_chmod path 511 w) of
        (Inl e, w1) \<Rightarrow> print (Warn_perms e) w1
      | (Inr u, w1) \<Rightarrow> w1)"

text \<open>The removal itself: \<^verbatim>\<open>shutil.rmtree\<close> with the handler for a folder, \<^verbatim>\<open>os.remove\<close> for a file.\<close>

definition remove_entry :: "path \<Rightarrow> bool \<Rightarrow> world \<Rightarrow> (exn + unit) \<times> world" where
  "remove_entry path is_folder w =
     (if is_folder then shutil_rmtree path on_rm_error w else os_remove path w)"

text \<open>
  The body of the quarantine \<^verbatim>\<open>try\<close> of \<^verbatim>\<open>guardianAI.py\<close>, up to its \<^verbatim>\<open>print\<close>:
  make the directory, move the entry to \<^verbatim>\<open>quarantine_dir/basename(path)\<close>.
\<close>

definition quarantine :: "path \<Rightarrow> path \<Rightarrow> world \<Rightarrow> (exn + unit) \<times> world" where
  "quarantine quarantine_dir path w =
     (case os_makedirs quarantine_dir w of
        (Inl e, w1) \<Rightarrow> (Inl e, w1)
      | (Inr u, w1) \<Rightarrow>
          (case shutil_move path (join quarantine_dir (basename path)) w1 of
             (Inl e, w2) \<Rightarrow> (Inl e, w2)
           | (Inr dst, w2) \<Rightarrow>
               (Inr (), print (Act_quarantined (join quarantine_dir (basename path))) w2)))"

text \<open>
  The \<^verbatim>\<open>for attempt in range(1, max_retries + 1)\<close> loop of \<^verbatim>\<open>guardianAI.py\<close>, over the
  attempt numbers still to run. The result is the value Python returns: \<open>Some True\<close>,
  \<open>Some False\<close>, or \<open>None\<close> when the loop ends without a \<^verbatim>\<open>return\<close>. \<open>quarantine_dir\<close> is
  \<open>None\<close> when \<^verbatim>\<open>self.quarantine_dir\<close> is false in Python (\<^verbatim>\<open>None\<close> or the empty string).
\<close>

fun delete_attempts ::
  "path option \<Rightarrow> path \<Rightarrow> bool \<Rightarrow> int \<Rightarrow> int \<Rightarrow> int list \<Rightarrow> world \<Rightarrow> (exn + bool option) \<times> world"
where
  "delete_attempts quarantine_dir path is_folder max_retries retry_delay [] w = (Inr None, w)"
| "delete_attempts quarantine_dir path is_folder max_retries retry_delay (attempt # rest) w =
     (case remove_entry path is_folder (fix_permissions path is_folder w) of
        (Inr u, w1) \<Rightarrow> (Inr (Some True), print (Act_deleted is_folder path) w1)
      | (Inl e, w1) \<Rightarrow>
          (let w2 = print (Warn_attempt attempt path e) w1 in
           if attempt < max_retries then
             (case time_sleep retry_delay w2 of
                (Inl e2, w3) \<Rightarrow> (Inl e2, w3)
              | (Inr u, w3) \<Rightarrow>
                  delete_attempts quarantine_dir path is_folder max_retries retry_delay rest w3)
           else
             (case quarantine_dir of
                Some qd \<Rightarrow>
                  (case quarantine qd path w2 of
                     (Inr u, w3) \<Rightarrow> (Inr (Some True), w3)
                   | (Inl move_err, w3) \<Rightarrow>
                       (Inr (Some False),
                        print (Err_failed path max_retries) (print (Err_quarantine move_err) w3)))
              | None \<Rightarrow> (Inr (Some False), print (Err_failed path max_retries) w2))))"

definition delete_path ::
  "path option \<Rightarrow> path \<Rightarrow> bool \<Rightarrow> int \<Rightarrow> int \<Rightarrow> world \<Rightarrow> (exn + bool option) \<times> world"
where
  "delete_path quarantine_dir path is_folder max_retries retry_delay w =
     (if \<not> os_path_exists path w then (Inr (Some False), print (Info_not_exist path) w)
      else delete_attempts quarantine_dir path is_folder max_retries retry_delay
             [1..max_retries] w)"

text \<open>
  \<^verbatim>\<open>delete_path\<close> of \<^verbatim>\<open>guardianAI2.py\<close>. Its permission fix, its removal and its
  \<^verbatim>\<open>on_rm_error\<close> are the text of \<^verbatim>\<open>guardianAI.py\<close> (the comments apart); the handler has
  no \<^verbatim>\<open>quarantine_dir\<close> and the last failed attempt goes straight to the error line.
\<close>

fun delete_attempts2 ::
  "path \<Rightarrow> bool \<Rightarrow> int \<Rightarrow> int \<Rightarrow> int list \<Rightarrow> world \<Rightarrow> (exn + bool option) \<times> world"
where
  "delete_attempts2 path is_folder max_retries retry_delay [] w = (Inr None, w)"
| "delete_attempts2 path is_folder max_retries retry_delay (attempt # rest) w =
     (case remove_entry path is_folder (fix_permissions path is_folder w) of
        (Inr u, w1) \<Rightarrow> (Inr (Some True), print (Act_deleted is_folder path) w1)
      | (Inl e, w1) \<Rightarrow>
          (let w2 = print (Warn_attempt attempt path e) w1 in
           if attempt < max_retries then
             (case time_sleep retry_delay w2 of
                (Inl e2, w3) \<Rightarrow> (Inl e2, w3)
              | (Inr u, w3) \<Rightarrow> delete_attempts2 path is_folder max_retries retry_delay rest w3)
           else (Inr (Some False), print (Err_failed path max_retries) w2)))"

definition delete_path2 ::
  "path \<Rightarrow> bool \<Rightarrow> int \<Rightarrow> int \<Rightarrow> world \<Rightarrow> (exn + bool option) \<times> world"
where
  "delete_path2 path is_folder max_retries retry_delay w =
     (if \<not> os_path_exists path w then (Inr (Some False), print (Info_not_exist path) w)
      else delete_attempts2 path is_folder max_retries retry_delay [1..max_retries] w)"

subsection \<open>\<^verbatim>\<open>json.loads\<close>\<close>

text \<open>
  The reply of the language model is text; \<^verbatim>\<open>process_name\<close> parses it with
  \<^verbatim>\<open>json.loads\<close>. The parser below accepts what \<^verbatim>\<open>json.loads\<close> accepts: the JSON
  grammar with the four white-space characters, and the constants \<^verbatim>\<open>NaN\<close>, \<^verbatim>\<open>Infinity\<close>
  and \<^verbatim>\<open>-Infinity\<close>. A number keeps its text. A string is a list of bytes; a
  \<^verbatim>\<open>\uXXXX\<close> escape above \<open>00FF\<close> stays as it is written.
\<close>

datatype json =
    JNull
  | JBool bool
  | JNumber string
  | JString string
  | JArray "json list"
  | JObject "(string \<times> json) list"

datatype token =
    TLBrace | TRBrace | TLBracket | TRBracket | TColon | TComma
  | TString string
  | TAtom string

definition backslash :: char where
  "backslash = CHR 0x5C"

definition dquote :: char where
  "dquote = CHR 0x22"

definition is_ws :: "char \<Rightarrow> bool" where
  "is_ws c = (c = CHR '' '' \<or> c = CHR 0x09 \<or> c = CHR 0x0A \<or> c = CHR 0x0D)"

definition is_digit :: "char \<Rightarrow> bool" where
  "is_digit c = (48 \<le> (of_char c :: nat) \<and> (of_char c :: nat) \<le> 57)"

definition hex_value :: "char \<Rightarrow> nat option" where
  "hex_value c =
     (let n = (of_char c :: nat) in
      if 48 \<le> n \<and> n \<le> 57 then Some (n - 48)
      else if 65 \<le> n \<and> n \<le> 70 then Some (n - 55)
      else if 97 \<le> n \<and> n \<le> 102 then Some (n - 87)
      else None)"

definition punct :: "char \<Rightarrow> token option" where
  "punct c =
     (if c = CHR ''{'' then Some TLBrace
      else if c = CHR ''}'' then Some TRBrace
      else if c = CHR ''['' then Some TLBracket
      else if c = CHR '']'' then Some TRBracket
      else if c = CHR '':'' then Some TColon
      else if c = CHR '','' then Some TComma
      else None)"

definition unescape :: "char \<Rightarrow> char option" where
  "unescape c =
     (if c = dquote \<or> c = backslash \<or> c = CHR ''/'' then Some c
      else if c = CHR ''b'' then Some (CHR 0x08)
      else if c = CHR ''f'' then Some (CHR 0x0C)
      else if c = CHR ''n'' then Some (CHR 0x0A)
      else if c = CHR ''r'' then Some (CHR 0x0D)
      else if c = CHR ''t'' then Some (CHR 0x09)
      else None)"

text \<open>The characters a four-digit escape stands for; the argument is the four digits.\<close>

definition decode_u :: "string \<Rightarrow> string" where
  "decode_u h =
     (let v = foldl (\<lambda>a c. 16 * a + (case hex_value c of Some d \<Rightarrow> d | None \<Rightarrow> 0)) 0 h in
      if v < 256 then [char_of v] else backslash # CHR ''u'' # h)"

text \<open>
  The scanner reads one character at a time. Its modes: between tokens; inside an atom
  (a number or a constant); inside a string; after a backslash; inside the four digits
  of a \<^verbatim>\<open>\u\<close> escape. Accumulators are kept reversed.
\<close>

datatype lex_mode =
    LStart
  | LAtom string
  | LString string
  | LEscape string
  | LUnicode string string

fun lex :: "lex_mode \<Rightarrow> token list \<Rightarrow> string \<Rightarrow> token list option" where
  "lex LStart acc [] = Some (rev acc)"
| "lex LStart acc (c # cs) =
     (if is_ws c then lex LStart acc cs
      else if c = dquote then lex (LString []) acc cs
      else (case punct c of
              Some t \<Rightarrow> lex LStart (t # acc) cs
            | None \<Rightarrow> lex (LAtom [c]) acc cs))"
| "lex (LAtom a) acc [] = Some (rev (TAtom (rev a) # acc))"
| "lex (LAtom a) acc (c # cs) =
     (if is_ws c then lex LStart (TAtom (rev a) # acc) cs
      else if c = dquote then lex (LString []) (TAtom (rev a) # acc) cs
      else (case punct c of
              Some t \<Rightarrow> lex LStart (t # TAtom (rev a) # acc) cs
            | None \<Rightarrow> lex (LAtom (c # a)) acc cs))"
| "lex (LString s) acc [] = None"
| "lex (LString s) acc (c # cs) =
     (if c = dquote then lex LStart (TString (rev s) # acc) cs
      else if c = backslash then lex (LEscape s) acc cs
      else if (of_char c :: nat) < 32 then None
      else lex (LString (c # s)) acc cs)"
| "lex (LEscape s) acc [] = None"
| "lex (LEscape s) acc (c # cs) =
     (if c = CHR ''u'' then lex (LUnicode s []) acc cs
      else (case unescape c of
              Some d \<Rightarrow> lex (LString (d # s)) acc cs
            | None \<Rightarrow> None))"
| "lex (LUnicode s h) acc [] = None"
| "lex (LUnicode s h) acc (c # cs) =
     (if hex_value c = None then None
      else if length h = 3 then lex (LString (rev (decode_u (rev (c # h))) @ s)) acc cs
      else lex (LUnicode s (c # h)) acc cs)"

text \<open>The number grammar: \<^verbatim>\<open>-?(0|[1-9][0-9]*)(\.[0-9]+)?([eE][-+]?[0-9]+)?\<close>.\<close>

definition valid_exponent :: "string \<Rightarrow> bool" where
  "valid_exponent s =
     (let t = (case s of
                 [] \<Rightarrow> []
               | c # r \<Rightarrow> if c = CHR ''+'' \<or> c = CHR ''-'' then r else s)
      in t \<noteq> [] \<and> list_all is_digit t)"

definition exponent_opt :: "string \<Rightarrow> bool" where
  "exponent_opt s =
     (case s of
        [] \<Rightarrow> True
      | c # r \<Rightarrow> (c = CHR ''e'' \<or> c = CHR ''E'') \<and> valid_exponent r)"

definition valid_number :: "string \<Rightarrow> bool" where
  "valid_number s =
     (let body = (case s of
                    [] \<Rightarrow> []
                  | c # r \<Rightarrow> if c = CHR ''-'' then r else s);
          int_part = takeWhile is_digit body;
          rest = dropWhile is_digit body
      in (if int_part = [] then False
          else if hd int_part = CHR ''0'' then length int_part = 1
          else True)
         \<and> (case rest of
               [] \<Rightarrow> True
             | c # r \<Rightarrow>
                 if c = CHR ''.''
                 then takeWhile is_digit r \<noteq> [] \<and> exponent_opt (dropWhile is_digit r)
                 else exponent_opt rest))"

definition atom_value :: "string \<Rightarrow> json option" where
  "atom_value a =
     (if a = ''null'' then Some JNull
      else if a = ''true'' then Some (JBool True)
      else if a = ''false'' then Some (JBool False)
      else if a = ''NaN'' \<or> a = ''Infinity'' \<or> a = ''-Infinity'' then Some (JNumber a)
      else if valid_number a then Some (JNumber a)
      else None)"

text \<open>
  The parser runs over the tokens with a stack of the containers that are open: an
  array with its elements so far, an object with its members so far, an object whose
  next member has its key and waits for the value. Its modes say what may come next.
\<close>

datatype frame =
    FArray "json list"
  | FObject "(string \<times> json) list"
  | FMember "(string \<times> json) list" string

datatype pmode =
    PValue
  | PValueOrClose
  | PKeyOrClose
  | PKey
  | PColon
  | PAfter
  | PDone json

fun complete :: "json \<Rightarrow> frame list \<Rightarrow> (pmode \<times> frame list) option" where
  "complete v [] = Some (PDone v, [])"
| "complete v (FArray xs # st) = Some (PAfter, FArray (v # xs) # st)"
| "complete v (FMember kvs k # st) = Some (PAfter, FObject ((k, v) # kvs) # st)"
| "complete v (FObject kvs # st) = None"

fun begin_value :: "token \<Rightarrow> frame list \<Rightarrow> (pmode \<times> frame list) option" where
  "begin_value (TAtom a) st = (case atom_value a of None \<Rightarrow> None | Some v \<Rightarrow> complete v st)"
| "begin_value (TString s) st = complete (JString s) st"
| "begin_value TLBracket st = Some (PValueOrClose, FArray [] # st)"
| "begin_value TLBrace st = Some (PKeyOrClose, FObject [] # st)"
| "begin_value t st = None"

fun begin_key :: "token \<Rightarrow> frame list \<Rightarrow> (pmode \<times> frame list) option" where
  "begin_key (TString k) (FObject kvs # st) = Some (PColon, FMember kvs k # st)"
| "begin_key t st = None"

fun pstep :: "pmode \<Rightarrow> frame list \<Rightarrow> token \<Rightarrow> (pmode \<times> frame list) option" where
  "pstep PValue st t = begin_value t st"
| "pstep PValueOrClose (FArray xs # st) TRBracket = complete (JArray (rev xs)) st"
| "pstep PValueOrClose st t = begin_value t st"
| "pstep PKeyOrClose (FObject kvs # st) TRBrace = complete (JObject (rev kvs)) st"
| "pstep PKeyOrClose st t = begin_key t st"
| "pstep PKey st t = begin_key t st"
| "pstep PColon st TColon = Some (PValue, st)"
| "pstep PColon st t = None"
| "pstep PAfter (FArray xs # st) TComma = Some (PValue, FArray xs # st)"
| "pstep PAfter (FArray xs # st) TRBracket = complete (JArray (rev xs)) st"
| "pstep PAfter (FObject kvs # st) TComma = Some (PKey, FObject kvs # st)"
| "pstep PAfter (FObject kvs # st) TRBrace = complete (JObject (rev kvs)) st"
| "pstep PAfter st t = None"
| "pstep (PDone v) st t = None"

fun parse :: "pmode \<Rightarrow> frame list \<Rightarrow> token list \<Rightarrow> json option" where
  "parse (PDone v) st [] = Some v"
| "parse m st [] = None"
| "parse m st (t # ts) =
     (case pstep m st t of
        None \<Rightarrow> None
      | Some (m', st') \<Rightarrow> parse m' st' ts)"

definition json_loads :: "string \<Rightarrow> exn + json" where
  "json_loads s =
     (case lex LStart [] s of
        None \<Rightarrow> Inl JSONDecodeError
      | Some ts \<Rightarrow>
          (case parse PValue [] ts of
             None \<Rightarrow> Inl JSONDecodeError
           | Some v \<Rightarrow> Inr v))"

text \<open>
  \<^verbatim>\<open>response_json.get(key, default)\<close>: a dictionary answers with the value of the key
  (the last one when the text repeats the key) or the default; any other value has no
  \<^verbatim>\<open>get\<close> and the call raises \<^verbatim>\<open>AttributeError\<close>.
\<close>

fun dict_get :: "json \<Rightarrow> string \<Rightarrow> json \<Rightarrow> exn + json" where
  "dict_get (JObject kvs) key dflt =
     (case map_of (rev kvs) key of
        Some v \<Rightarrow> Inr v
      | None \<Rightarrow> Inr dflt)"
| "dict_get v key dflt = Inl AttributeError"

text \<open>
  What Python's \<^verbatim>\<open>if name_found:\<close> takes for true. A number is true unless it is zero,
  read off the digits of its mantissa; a float literal too small for a double, which
  Python rounds to zero, is outside this reading.
\<close>

definition nonzero_number :: "string \<Rightarrow> bool" where
  "nonzero_number s =
     (if s = ''NaN'' \<or> s = ''Infinity'' \<or> s = ''-Infinity'' then True
      else list_ex (\<lambda>c. is_digit c \<and> c \<noteq> CHR ''0'')
             (takeWhile (\<lambda>c. c \<noteq> CHR ''e'' \<and> c \<noteq> CHR ''E'') s))"

fun truthy :: "json \<Rightarrow> bool" where
  "truthy JNull = False"
| "truthy (JBool b) = b"
| "truthy (JNumber s) = nonzero_number s"
| "truthy (JString s) = (s \<noteq> [])"
| "truthy (JArray xs) = (xs \<noteq> [])"
| "truthy (JObject kvs) = (kvs \<noteq> [])"

subsection \<open>\<^verbatim>\<open>get_owner\<close>, \<^verbatim>\<open>Chain.check_names\<close>, \<^verbatim>\<open>send_msg_to_user\<close>\<close>

text \<open>
  \<^verbatim>\<open>get_owner\<close>: the account that owns the path as \<^verbatim>\<open>DOMAIN\name\<close>, or \<^verbatim>\<open>"Unknown"\<close>
  with a warning when the security API raises.
\<close>

definition get_owner :: "path \<Rightarrow> world \<Rightarrow> string \<times> world" where
  "get_owner path w =
     (case security w path of
        Inr (name, domain) \<Rightarrow> (domain @ [backslash] @ name, w)
      | Inl e \<Rightarrow> (''Unknown'', print (Warn_owner path e) w))"

text \<open>
  \<^verbatim>\<open>check_names\<close>: the text of the model's reply; when the call raises (no connection,
  time-out, anything else), an error line and the fixed reply that says no.
\<close>

definition default_reply :: string where
  \<open>default_reply = ''{"name_found": false}''\<close>

definition check_names :: "string \<Rightarrow> world \<Rightarrow> string \<times> world" where
  "check_names name w =
     (case llm w name of
        Inr raw_response \<Rightarrow> (raw_response, w)
      | Inl e \<Rightarrow> (default_reply, print (Err_llm name e) w))"

text \<open>The two tables, \<^verbatim>\<open>user_to_machine\<close> of \<^verbatim>\<open>guardianAI.py\<close> and of \<^verbatim>\<open>guardianAI2.py\<close>.\<close>

definition user_to_machine_table :: "(string \<times> string) list" where
  "user_to_machine_table =
     [(''APAC'' @ [backslash] @ ''HEKOLLI'', ''C185LX082414174''),
      (''APAC'' @ [backslash] @ ''KHAIRES'', ''C185LX083361454''),
      (''APAC'' @ [backslash] @ ''SURESAD'', ''C185LX091093328''),
      (''APAC'' @ [backslash] @ ''SONIARN'', ''C185LX091074664'')]"

definition user_to_machine_table2 :: "(string \<times> string) list" where
  "user_to_machine_table2 =
     [(''APAC'' @ [backslash] @ ''HEKOLLI'', ''C185LX082414174''),
      (''APAC'' @ [backslash] @ ''KHAIRES'', ''C185LX083361454''),
      (''APAC'' @ [backslash] @ ''SURESAD'', ''C185LX091093328''),
      (''APAC'' @ [backslash] @ ''SONIARN'', ''C185LX091074664''),
      (''APAC'' @ [backslash] @ ''SINGSID'', ''C185LX083361246'')]"

definition user_to_machine :: "string \<Rightarrow> string option" where
  "user_to_machine = map_of user_to_machine_table"

definition user_to_machine2 :: "string \<Rightarrow> string option" where
  "user_to_machine2 = map_of user_to_machine_table2"

text \<open>
  \<^verbatim>\<open>send_msg_to_user\<close> runs \<^verbatim>\<open>msg /server:{client_machine} {username} {message}\<close> with
  \<^verbatim>\<open>check=True\<close>. Of what \<^verbatim>\<open>subprocess.run\<close> raises it catches
  \<^verbatim>\<open>CalledProcessError\<close> alone.
\<close>

definition send_msg_to_user :: "string \<Rightarrow> string \<Rightarrow> string \<Rightarrow> world \<Rightarrow> (exn + unit) \<times> world" where
  "send_msg_to_user client_machine username message w =
     (let cmd = [''msg'', ''/server:'' @ client_machine, username, message];
          w1 = w\<lparr>trace := trace w @ [Run cmd]\<rparr>
      in case msg_exit w cmd of
           None \<Rightarrow> (Inr (), print (Info_sent username client_machine) w1)
         | Some e \<Rightarrow>
             if e = CalledProcessError then (Inr (), print (Err_msg e) w1)
             else (Inl e, w1))"

subsection \<open>\<^verbatim>\<open>WatcherHandler.process_name\<close>\<close>

text \<open>\<^verbatim>\<open>str.lower\<close> on ASCII letters, and \<^verbatim>\<open>str.split\<close> with a one-character separator.\<close>

definition lower :: "string \<Rightarrow> string" where
  "lower s =
     map (\<lambda>c. if 65 \<le> (of_char c :: nat) \<and> (of_char c :: nat) \<le> 90
               then char_of ((of_char c :: nat) + 32) else c) s"

fun split_on :: "char \<Rightarrow> string \<Rightarrow> string list" where
  "split_on sep [] = [[]]"
| "split_on sep (c # cs) =
     (if c = sep then [] # split_on sep cs
      else (case split_on sep cs of
              [] \<Rightarrow> [[c]]
            | piece # pieces \<Rightarrow> (c # piece) # pieces))"

text \<open>The message of the pop-up, the same f-string in both files.\<close>

definition removal_message :: "string \<Rightarrow> string \<Rightarrow> string" where
  "removal_message typ name =
     ''The '' @ lower typ @ '' name '' @ [CHR 0x27] @ name @ [CHR 0x27]
       @ '' contains a personal name and violates naming guidelines.'' @ [CHR 0x0A]
       @ ''It has been removed. Please rename it according to the policy.''"

text \<open>
  The classification step of \<^verbatim>\<open>process_name\<close>: the call of \<^verbatim>\<open>check_names\<close> and the
  \<^verbatim>\<open>try\<close> around \<^verbatim>\<open>json.loads\<close> and \<^verbatim>\<open>.get("name_found", False)\<close>, whose \<^verbatim>\<open>except\<close>
  names \<^verbatim>\<open>json.JSONDecodeError\<close> only. The result is the value bound to \<^verbatim>\<open>name_found\<close>.
\<close>

definition classify :: "string \<Rightarrow> world \<Rightarrow> (exn + json) \<times> world" where
  "classify name w =
     (case check_names name w of
        (raw_response, w1) \<Rightarrow>
          (case json_loads raw_response of
             Inl e \<Rightarrow>
               if e = JSONDecodeError
               then (Inr (JBool False), print (Warn_invalid_json name raw_response) w1)
               else (Inl e, w1)
           | Inr response_json \<Rightarrow>
               (case dict_get response_json ''name_found'' (JBool False) of
                  Inl e \<Rightarrow> (Inl e, w1)
                | Inr name_found \<Rightarrow> (Inr name_found, w1))))"

text \<open>
  What follows \<^verbatim>\<open>delete_path\<close> in the branch of a positive verdict, the same in both
  files but for the table: look the owner up, send the message or print the warning.
\<close>

definition notify_owner ::
  "(string \<Rightarrow> string option) \<Rightarrow> string \<Rightarrow> string \<Rightarrow> string \<Rightarrow> world \<Rightarrow> (exn + unit) \<times> world"
where
  "notify_owner table owner typ name w =
     (case table owner of
        None \<Rightarrow> (Inr (), print (Warn_no_mapping owner) w)
      | Some client_machine \<Rightarrow>
          if client_machine = [] then (Inr (), print (Warn_no_mapping owner) w)
          else send_msg_to_user client_machine (last (split_on backslash owner))
                 (removal_message typ name) w)"

text \<open>\<^verbatim>\<open>process_name\<close> of \<^verbatim>\<open>guardianAI.py\<close>; it calls \<^verbatim>\<open>delete_path\<close> with the defaults 3 and 2.\<close>

definition process_name :: "path option \<Rightarrow> path \<Rightarrow> bool \<Rightarrow> world \<Rightarrow> (exn + unit) \<times> world" where
  "process_name quarantine_dir path is_folder w =
     (let name = basename path;
          typ = (if is_folder then ''Folder'' else ''File'')
      in case get_owner path w of
           (owner, w1) \<Rightarrow>
             (case classify name (print (Detected typ name owner) w1) of
                (Inl e, w2) \<Rightarrow> (Inl e, w2)
              | (Inr name_found, w2) \<Rightarrow>
                  if truthy name_found then
                    (case delete_path quarantine_dir path is_folder 3 2
                            (print (Alert (lower typ) name owner) w2) of
                       (Inl e, w3) \<Rightarrow> (Inl e, w3)
                     | (Inr deleted, w3) \<Rightarrow> notify_owner user_to_machine owner typ name w3)
                  else (Inr (), print (Info_clean (lower typ) name) w2)))"

text \<open>\<^verbatim>\<open>process_name\<close> of \<^verbatim>\<open>guardianAI2.py\<close>.\<close>

definition process_name2 :: "path \<Rightarrow> bool \<Rightarrow> world \<Rightarrow> (exn + unit) \<times> world" where
  "process_name2 path is_folder w =
     (let name = basename path;
          typ = (if is_folder then ''Folder'' else ''File'')
      in case get_owner path w of
           (owner, w1) \<Rightarrow>
             (case classify name (print (Detected typ name owner) w1) of
                (Inl e, w2) \<Rightarrow> (Inl e, w2)
              | (Inr name_found, w2) \<Rightarrow>
                  if truthy name_found then
                    (case delete_path2 path is_folder 3 2
                            (print (Alert (lower typ) name owner) w2) of
                       (Inl e, w3) \<Rightarrow> (Inl e, w3)
                     | (Inr deleted, w3) \<Rightarrow> notify_owner user_to_machine2 owner typ name w3)
                  else (Inr (), print (Info_clean (lower typ) name) w2)))"

text \<open>
  The text that \<^verbatim>\<open>process_name\<close> of the two files share, with what differs as
  parameters: the \<^verbatim>\<open>delete_path\<close> it calls and the table it reads. It is used to prove
  a property of both at once (lemma \<open>process_name_pipeline\<close> below).
\<close>

definition pipeline ::
  "(path \<Rightarrow> bool \<Rightarrow> int \<Rightarrow> int \<Rightarrow> world \<Rightarrow> (exn + bool option) \<times> world)
     \<Rightarrow> (string \<Rightarrow> string option) \<Rightarrow> path \<Rightarrow> bool \<Rightarrow> world \<Rightarrow> (exn + unit) \<times> world"
where
  "pipeline delete table path is_folder w =
     (let name = basename path;
          typ = (if is_folder then ''Folder'' else ''File'')
      in case get_owner path w of
           (owner, w1) \<Rightarrow>
             (case classify name (print (Detected typ name owner) w1) of
                (Inl e, w2) \<Rightarrow> (Inl e, w2)
              | (Inr name_found, w2) \<Rightarrow>
                  if truthy name_found then
                    (case delete path is_folder 3 2 (print (Alert (lower typ) name owner) w2) of
                       (Inl e, w3) \<Rightarrow> (Inl e, w3)
                     | (Inr deleted, w3) \<Rightarrow> notify_owner table owner typ name w3)
                  else (Inr (), print (Info_clean (lower typ) name) w2)))"

text \<open>The two watchdog callbacks pass the event's path and its directory flag on.\<close>

record fs_event =
  src_path :: path
  dest_path :: path
  is_directory :: bool

definition on_created :: "path option \<Rightarrow> fs_event \<Rightarrow> world \<Rightarrow> (exn + unit) \<times> world" where
  "on_created quarantine_dir event w =
     process_name quarantine_dir (src_path event) (is_directory event) w"

definition on_moved :: "path option \<Rightarrow> fs_event \<Rightarrow> world \<Rightarrow> (exn + unit) \<times> world" where
  "on_moved quarantine_dir event w =
     process_name quarantine_dir (dest_path event) (is_directory event) w"

section \<open>What a run shows\<close>

text \<open>The events a run from \<open>w\<close> to \<open>w'\<close> added to the trace.\<close>

definition new_events :: "world \<Rightarrow> world \<Rightarrow> event list" where
  "new_events w w' = drop (length (trace w)) (trace w')"

text \<open>
  \<open>extends P w w'\<close>: the trace of \<open>w'\<close> is the trace of \<open>w\<close> followed by events that
  all satisfy \<open>P\<close>.
\<close>

definition extends :: "(event \<Rightarrow> bool) \<Rightarrow> world \<Rightarrow> world \<Rightarrow> bool" where
  "extends P w w' = (\<exists>evs. trace w' = trace w @ evs \<and> list_all P evs)"

text \<open>
  The steps of \<^verbatim>\<open>delete_path\<close> as the trace shows them. An attempt ends with exactly one
  of two lines: the success line, after which \<^verbatim>\<open>delete_path\<close> returns, or the warning
  that carries the attempt's number. The lines of the quarantine branch and the final
  error line are the fall-back.
\<close>

datatype step = Attempt_failed int | Slept int | Attempt_ok | Fallback

fun step_of_line :: "log_line \<Rightarrow> step option" where
  "step_of_line (Warn_attempt k p e) = Some (Attempt_failed k)"
| "step_of_line (Act_deleted f p) = Some Attempt_ok"
| "step_of_line (Act_quarantined p) = Some Fallback"
| "step_of_line (Err_quarantine e) = Some Fallback"
| "step_of_line (Err_failed p n) = Some Fallback"
| "step_of_line l = None"

fun step_of :: "event \<Rightarrow> step option" where
  "step_of (Print l) = step_of_line l"
| "step_of (Sleep d) = Some (Slept d)"
| "step_of (Run cmd) = None"

definition steps :: "event list \<Rightarrow> step list" where
  "steps evs = concat (map (\<lambda>ev. case step_of ev of None \<Rightarrow> [] | Some s \<Rightarrow> [s]) evs)"

fun is_attempt :: "step \<Rightarrow> bool" where
  "is_attempt (Attempt_failed k) = True"
| "is_attempt Attempt_ok = True"
| "is_attempt s = False"

definition attempts_made :: "event list \<Rightarrow> nat" where
  "attempts_made evs = length (filter is_attempt (steps evs))"

definition sleeps :: "event list \<Rightarrow> int list" where
  "sleeps evs = concat (map (\<lambda>s. case s of Slept d \<Rightarrow> [d] | _ \<Rightarrow> []) (steps evs))"

text \<open>
  The steps of a run in which every attempt fails, as the specification words them:
  attempts 1 to \<open>max_retries\<close>, each but the last followed by a sleep of \<open>retry_delay\<close>.
\<close>

definition expected_steps :: "int \<Rightarrow> int \<Rightarrow> step list" where
  "expected_steps max_retries retry_delay =
     concat (map (\<lambda>k. if k < max_retries then [Attempt_failed k, Slept retry_delay]
                       else [Attempt_failed k]) [1..max_retries])"

text \<open>The lines that the permission fix and the removal print on their own.\<close>

fun housekeeping :: "event \<Rightarrow> bool" where
  "housekeeping (Print (Warn_perms e)) = True"
| "housekeeping (Print (Err_could_not_remove p e)) = True"
| "housekeeping (Print (Act_fixed p)) = True"
| "housekeeping ev = False"

text \<open>The events of \<^verbatim>\<open>delete_path\<close>: those lines, and the steps.\<close>

definition deletion_event :: "event \<Rightarrow> bool" where
  "deletion_event ev = (housekeeping ev \<or> step_of ev \<noteq> None)"

fun is_run :: "event \<Rightarrow> bool" where
  "is_run (Run cmd) = True"
| "is_run ev = False"

text \<open>
  \<open>same_entry n x\<close>: \<open>x\<close> is the entry \<open>n\<close>, as it was or with its read-only attribute
  cleared, which is all the permission fix of a file deletion changes.
\<close>

definition same_entry :: "node \<Rightarrow> node option \<Rightarrow> bool" where
  "same_entry n x = (x = Some n \<or> x = Some (set_read_only False n))"

text \<open>A run from \<open>w\<close> to \<open>w'\<close> that hands no command to \<^verbatim>\<open>subprocess.run\<close>.\<close>

definition quiet :: "world \<Rightarrow> world \<Rightarrow> bool" where
  "quiet w w' = extends (\<lambda>ev. \<not> is_run ev) w w'"

text \<open>The quarantine branch was entered: one of its two lines is in the events.\<close>

fun quarantine_line :: "event \<Rightarrow> bool" where
  "quarantine_line (Print (Act_quarantined p)) = True"
| "quarantine_line (Print (Err_quarantine e)) = True"
| "quarantine_line ev = False"

text \<open>
  The verdict of the classification for a name: whether \<^verbatim>\<open>if name_found:\<close> takes the
  branch, or \<open>None\<close> when the classification raises.
\<close>

definition verdict :: "string \<Rightarrow> world \<Rightarrow> bool option" where
  "verdict name w =
     (case fst (classify name w) of
        Inl e \<Rightarrow> None
      | Inr name_found \<Rightarrow> Some (truthy name_found))"

section \<open>Example worlds\<close>

text \<open>
  A small tree: the watched folder with a file and a folder whose names hold a
  personal name, and the quarantine folder with one file in it. The owner of every
  path is \<^verbatim>\<open>APAC\HEKOLLI\<close>, the language model gives the reply \<open>reply\<close> to every name,
  and the \<^verbatim>\<open>msg\<close> command succeeds.
\<close>

definition example_fs :: node where
  "example_fs =
     Dir False
       [(''watch'',
         Dir False
           [(''Rahul_Notes.docx'', File False),
            (''Rahul_Budget_Report'',
             Dir False [(''q1.xlsx'', File False), (''q2.xlsx'', File True)])]),
        (''Quarantine_Folder'', Dir False [(''old.txt'', File False)])]"

definition notes_file :: path where
  "notes_file = [''watch'', ''Rahul_Notes.docx'']"

definition report :: path where
  "report = [''watch'', ''Rahul_Budget_Report'']"

definition quarantine_folder :: path where
  "quarantine_folder = [''Quarantine_Folder'']"

definition quarantined_file :: path where
  "quarantined_file = [''Quarantine_Folder'', ''old.txt'']"

text \<open>No operation is refused; or the file at one path is held open, so that the
  operating system refuses to unlink it at all times.\<close>

definition no_fault :: "fsop \<Rightarrow> path \<Rightarrow> nat \<Rightarrow> errno option" where
  "no_fault op p t = None"

definition in_use :: "path \<Rightarrow> fsop \<Rightarrow> path \<Rightarrow> nat \<Rightarrow> errno option" where
  "in_use held op p t = (if op = OpUnlink \<and> p = held then Some EACCES else None)"

definition example_world :: "(fsop \<Rightarrow> path \<Rightarrow> nat \<Rightarrow> errno option) \<Rightarrow> string \<Rightarrow> world" where
  "example_world refused reply =
     \<lparr>fs = example_fs, fault = refused, clock = 0, trace = [],
      security = (\<lambda>p. Inr (''HEKOLLI'', ''APAC'')),
      llm = (\<lambda>name. Inr reply),
      msg_exit = (\<lambda>cmd. None)\<rparr>"

text \<open>The same world when the security API fails for every path.\<close>

definition unowned :: "world \<Rightarrow> world" where
  "unowned w = w\<lparr>security := (\<lambda>p. Inl Win32Error)\<rparr>"

definition reply_true :: string where
  \<open>reply_true = ''{"name_found": true}''\<close>

definition reply_false :: string where
  \<open>reply_false = ''{"name_found": false}''\<close>

section \<open>The file-system tree\<close>

lemma map_of_set_child: "map_of (set_child x v cs) y = (if y = x then v else map_of cs y)"
proof (cases v)
  case None
  have "map_of (filter (\<lambda>c. fst c \<noteq> x) cs) y = (if y = x then None else map_of cs y)"
    by (induction cs) auto
  with None show ?thesis by simp
next
  case (Some n)
  have a: "map_of (cs @ [(x, n)]) y = (if y = x then Some n else map_of cs y)" if "map_of cs x = None"
    using that by (induction cs) (auto split: if_splits)
  have b1: "y \<noteq> x \<Longrightarrow> map_of (map (\<lambda>c. if fst c = x then (x, n) else c) cs) y = map_of cs y"
    by (induction cs) auto
  have b2: "map_of cs x \<noteq> None \<Longrightarrow> map_of (map (\<lambda>c. if fst c = x then (x, n) else c) cs) x = Some n"
    by (induction cs) (auto split: if_splits)
  have b: "map_of (map (\<lambda>c. if fst c = x then (x, n) else c) cs) y = (if y = x then Some n else map_of cs y)"
    if "map_of cs x \<noteq> None"
    using that b1 b2 by auto
  show ?thesis using Some a b by (auto split: option.splits)
qed

lemma lookup_None [simp]: "lookup None p = None"
  by (cases p) auto

lemma lookup_File [simp]: "lookup (Some (File ro)) (x # xs) = None"
  by simp

lemma lookup_append: "lookup n (p @ q) = lookup (lookup n p) q"
proof (induction p arbitrary: n)
  case Nil
  then show ?case by simp
next
  case (Cons x xs)
  show ?case
  proof (cases n)
    case None
    then show ?thesis by simp
  next
    case (Some m)
    then show ?thesis using Cons by (cases m) auto
  qed
qed

lemma lookup_alter_self:
  "f None = None \<Longrightarrow> lookup (alter f p n) p = f (lookup n p)"
proof (induction p arbitrary: n)
  case Nil
  then show ?case by simp
next
  case (Cons x xs)
  show ?case
  proof (cases n)
    case None
    then show ?thesis using Cons by simp
  next
    case (Some m)
    then show ?thesis using Cons by (cases m) (auto simp: map_of_set_child)
  qed
qed

lemma lookup_alter_other:
  "\<not> prefix p q \<Longrightarrow> \<not> prefix q p \<Longrightarrow> lookup (alter f p n) q = lookup n q"
proof (induction p arbitrary: n q)
  case Nil
  then show ?case by simp
next
  case (Cons x xs)
  from Cons.prems obtain y ys where q: "q = y # ys" by (cases q) auto
  show ?case
  proof (cases n)
    case None
    then show ?thesis by simp
  next
    case (Some m)
    show ?thesis
    proof (cases m)
      case (File ro)
      with Some show ?thesis by simp
    next
      case (Dir ro cs)
      show ?thesis
      proof (cases "y = x")
        case True
        with Cons.prems q have "\<not> prefix xs ys" "\<not> prefix ys xs" by auto
        with Cons.IH Some Dir q True show ?thesis by (simp add: map_of_set_child)
      next
        case False
        with Some Dir q show ?thesis by (simp add: map_of_set_child)
      qed
    qed
  qed
qed

text \<open>Changing the read-only attribute keeps every entry in place.\<close>

lemma lookup_chmod_None:
  "(lookup (alter (map_option (set_read_only b)) p n) q = None) = (lookup n q = None)"
proof (induction p arbitrary: n q)
  case Nil
  show ?case
  proof (cases n)
    case None then show ?thesis by simp
  next
    case (Some m)
    then show ?thesis by (cases m; cases q) auto
  qed
next
  case (Cons x xs)
  show ?case
  proof (cases n)
    case None then show ?thesis by simp
  next
    case (Some m)
    show ?thesis
    proof (cases m)
      case (File ro)
      with Some show ?thesis by simp
    next
      case (Dir ro cs)
      show ?thesis
      proof (cases q)
        case Nil
        with Some Dir show ?thesis by simp
      next
        case (Cons y ys)
        with Some Dir Cons.IH show ?thesis by (simp add: map_of_set_child)
      qed
    qed
  qed
qed

section \<open>What the library functions leave alone\<close>

lemma print_simps [simp]:
  "trace (print l w) = trace w @ [Print l]"
  "fs (print l w) = fs w"
  "clock (print l w) = clock w"
  "fault (print l w) = fault w"
  "llm (print l w) = llm w"
  "security (print l w) = security w"
  "msg_exit (print l w) = msg_exit w"
  by (simp_all add: print_def)

lemma node_at_print [simp]: "node_at (print l w) p = node_at w p"
  by (simp add: node_at_def)

lemma exists_print [simp]: "os_path_exists p (print l w) = os_path_exists p w"
  by (simp add: os_path_exists_def)

lemma isdir_print [simp]: "os_path_isdir p (print l w) = os_path_isdir p w"
  by (simp add: os_path_isdir_def)

lemma put_fs_simps [simp]:
  "trace (put_fs f p w) = trace w"
  "clock (put_fs f p w) = clock w"
  "fault (put_fs f p w) = fault w"
  "llm (put_fs f p w) = llm w"
  "security (put_fs f p w) = security w"
  "msg_exit (put_fs f p w) = msg_exit w"
  by (simp_all add: put_fs_def split: option.splits)

lemma os_chmod_trace [simp]: "trace (snd (os_chmod p m w)) = trace w"
  by (simp add: os_chmod_def split: option.splits)

lemma os_unlink_trace [simp]: "trace (snd (os_unlink p w)) = trace w"
  by (simp add: os_unlink_def split: option.splits node.splits)

lemma os_remove_trace [simp]: "trace (snd (os_remove p w)) = trace w"
  by (simp add: os_remove_def)

lemma os_rmdir_trace [simp]: "trace (snd (os_rmdir p w)) = trace w"
  by (simp add: os_rmdir_def split: option.splits node.splits)

lemma os_mkdir_trace [simp]: "trace (snd (os_mkdir p w)) = trace w"
  by (simp add: os_mkdir_def split: option.splits node.splits)

lemma os_rename_trace [simp]: "trace (snd (os_rename p q w)) = trace w"
  by (simp add: os_rename_def split: option.splits)

lemma makedirs_rev_trace [simp]: "trace (snd (makedirs_rev rp w)) = trace w"
proof (induction rp arbitrary: w)
  case Nil
  then show ?case by simp
next
  case (Cons a rp)
  define r1 where "r1 = (if rp \<noteq> [] \<and> \<not> os_path_exists (rev rp) w
            then (case makedirs_rev rp w of
                    (Inl (OSError EEXIST), w1) \<Rightarrow> (Inr (), w1)
                  | r \<Rightarrow> r)
            else (Inr (), w))"
  have t1: "trace (snd r1) = trace w"
    using Cons[of w] unfolding r1_def
    by (auto split: prod.splits sum.splits exn.splits errno.splits)
  have e: "makedirs_rev (a # rp) w =
     (case r1 of
        (Inl e, w1) \<Rightarrow> (Inl e, w1)
      | (Inr u, w1) \<Rightarrow>
          (case os_mkdir (rev (a # rp)) w1 of
             (Inl e, w2) \<Rightarrow>
               if os_path_isdir (rev (a # rp)) w2 then (Inr (), w2) else (Inl e, w2)
           | (Inr u, w2) \<Rightarrow> (Inr (), w2)))"
    unfolding r1_def by simp
  obtain x w1 where r1: "r1 = (x, w1)" by (cases r1)
  with t1 have w1: "trace w1 = trace w" by simp
  obtain y w2 where m: "os_mkdir (rev (a # rp)) w1 = (y, w2)" by (cases "os_mkdir (rev (a # rp)) w1")
  have "trace (snd (os_mkdir (rev (a # rp)) w1)) = trace w1" by (rule os_mkdir_trace)
  with m w1 have w2: "trace w2 = trace w" by simp
  show ?case
    unfolding e r1 using w1 w2 m by (cases x; cases y) auto
qed

lemma os_makedirs_trace [simp]: "trace (snd (os_makedirs p w)) = trace w"
  by (simp add: os_makedirs_def)

lemma os_rename_traceD: "os_rename p q w = (r, w') \<Longrightarrow> trace w' = trace w"
  using os_rename_trace[of p q w] by simp

lemma shutil_move_trace [simp]: "trace (snd (shutil_move p q w)) = trace w"
  by (auto simp: shutil_move_def split: prod.splits sum.splits dest: os_rename_traceD)

lemma os_chmod_traceD: "os_chmod p m w = (r, w') \<Longrightarrow> trace w' = trace w"
  using os_chmod_trace[of p m w] by simp

lemma os_unlink_traceD: "os_unlink p w = (r, w') \<Longrightarrow> trace w' = trace w"
  using os_unlink_trace[of p w] by simp

lemma os_remove_traceD: "os_remove p w = (r, w') \<Longrightarrow> trace w' = trace w"
  using os_remove_trace[of p w] by simp

lemma os_rmdir_traceD: "os_rmdir p w = (r, w') \<Longrightarrow> trace w' = trace w"
  using os_rmdir_trace[of p w] by simp

lemma os_makedirs_traceD: "os_makedirs p w = (r, w') \<Longrightarrow> trace w' = trace w"
  using os_makedirs_trace[of p w] by simp

lemma shutil_move_traceD: "shutil_move p q w = (r, w') \<Longrightarrow> trace w' = trace w"
  using shutil_move_trace[of p q w] by simp

subsection \<open>Growing traces\<close>

lemma extends_same: "trace w' = trace w \<Longrightarrow> extends P w w'"
  by (simp add: extends_def)

lemma extends_refl [simp]: "extends P w w"
  by (simp add: extends_def)

lemma extends_trans: "extends P w w1 \<Longrightarrow> extends P w1 w2 \<Longrightarrow> extends P w w2"
  by (auto simp: extends_def)

lemma extends_print: "P (Print l) \<Longrightarrow> extends P w w1 \<Longrightarrow> extends P w (print l w1)"
  by (auto simp: extends_def)

lemma extends_mono: "extends P w w' \<Longrightarrow> (\<And>ev. P ev \<Longrightarrow> Q ev) \<Longrightarrow> extends Q w w'"
  by (auto simp: extends_def list_all_iff)

lemma extends_new_events: "extends P w w' \<Longrightarrow> list_all P (new_events w w')"
  by (auto simp: extends_def new_events_def)

lemma extends_trace: "extends P w w' \<Longrightarrow> trace w' = trace w @ new_events w w'"
  by (auto simp: extends_def new_events_def)

subsection \<open>The handler never raises\<close>

lemma on_rm_error_ok: "fst (on_rm_error f p e w) = Inr ()"
  by (simp add: on_rm_error_def split: prod.splits sum.splits)

lemma on_rm_error_extends: "extends housekeeping w (snd (on_rm_error f p e w))"
  by (auto simp: on_rm_error_def extends_def split: prod.splits sum.splits
      dest!: os_chmod_traceD os_rmdir_traceD os_unlink_traceD)

lemma try_rmdir_ok: "fst (try_rmdir on_rm_error p w) = Inr ()"
  using on_rm_error_ok by (auto simp: try_rmdir_def split: prod.splits sum.splits)

lemma try_unlink_ok: "fst (try_unlink on_rm_error p w) = Inr ()"
  using on_rm_error_ok by (auto simp: try_unlink_def split: prod.splits sum.splits)

lemma try_rmdir_extends: "extends housekeeping w (snd (try_rmdir on_rm_error p w))"
proof (cases "os_rmdir p w")
  case (Pair r w1)
  have t: "trace w1 = trace w" using os_rmdir_trace[of p w] Pair by simp
  show ?thesis
  proof (cases r)
    case (Inl e)
    have "extends housekeeping w1 (snd (on_rm_error Frmdir p e w1))" by (rule on_rm_error_extends)
    with t Pair Inl show ?thesis by (simp add: try_rmdir_def extends_def)
  next
    case (Inr u)
    with t Pair show ?thesis by (simp add: try_rmdir_def extends_def)
  qed
qed

lemma try_unlink_extends: "extends housekeeping w (snd (try_unlink on_rm_error p w))"
proof (cases "os_unlink p w")
  case (Pair r w1)
  have t: "trace w1 = trace w" using os_unlink_trace[of p w] Pair by simp
  show ?thesis
  proof (cases r)
    case (Inl e)
    have "extends housekeeping w1 (snd (on_rm_error Funlink p e w1))" by (rule on_rm_error_extends)
    with t Pair Inl show ?thesis by (simp add: try_unlink_def extends_def)
  next
    case (Inr u)
    with t Pair show ?thesis by (simp add: try_unlink_def extends_def)
  qed
qed

lemma rmtree_on_rm_error:
  "fst (rmtree_unsafe on_rm_error p n w) = Inr () \<and>
     extends housekeeping w (snd (rmtree_unsafe on_rm_error p n w))"
  "fst (rmtree_entries on_rm_error p cs w) = Inr () \<and>
     extends housekeeping w (snd (rmtree_entries on_rm_error p cs w))"
proof (induction on_rm_error p n w and on_rm_error p cs w rule: rmtree_unsafe_rmtree_entries.induct)
  case (1 p ro w)
  obtain r w1 where h: "on_rm_error Fscandir p (OSError ENOTDIR) w = (r, w1)"
    by (cases "on_rm_error Fscandir p (OSError ENOTDIR) w")
  from on_rm_error_ok[of Fscandir p "OSError ENOTDIR" w] h have r: "r = Inr ()" by simp
  from on_rm_error_extends[of w Fscandir p "OSError ENOTDIR"] h have e1: "extends housekeeping w w1" by simp
  have e2: "extends housekeeping w1 (snd (try_rmdir on_rm_error p w1))" by (rule try_rmdir_extends)
  show ?case
    using h r try_rmdir_ok[of p w1] extends_trans[OF e1 e2] by simp
next
  case (2 p ro cs w)
  define inner where "inner = (case fault w OpScandir p (clock w) of
              Some e \<Rightarrow> on_rm_error Fscandir p (OSError e) w
            | None \<Rightarrow> rmtree_entries on_rm_error p cs w)"
  have i: "fst inner = Inr () \<and> extends housekeeping w (snd inner)"
  proof (cases "fault w OpScandir p (clock w)")
    case None
    with 2 show ?thesis by (simp add: inner_def)
  next
    case (Some e)
    then show ?thesis
      using on_rm_error_ok[of Fscandir p "OSError e" w] on_rm_error_extends[of w Fscandir p "OSError e"]
      by (simp add: inner_def)
  qed
  obtain r w1 where h: "inner = (r, w1)" by (cases inner)
  with i have r: "r = Inr ()" and e1: "extends housekeeping w w1" by simp_all
  have e2: "extends housekeeping w1 (snd (try_rmdir on_rm_error p w1))" by (rule try_rmdir_extends)
  have "rmtree_unsafe on_rm_error p (Dir ro cs) w = try_rmdir on_rm_error p w1"
    using h r by (simp add: inner_def)
  then show ?case
    using try_rmdir_ok[of p w1] extends_trans[OF e1 e2] by simp
next
  case (3 p w)
  then show ?case by simp
next
  case (4 p c rest w)
  define first where "first = (if is_dir (snd c) then rmtree_unsafe on_rm_error (join p (fst c)) (snd c) w
            else try_unlink on_rm_error (join p (fst c)) w)"
  have i: "fst first = Inr () \<and> extends housekeeping w (snd first)"
  proof (cases "is_dir (snd c)")
    case True
    with 4(1) show ?thesis by (simp add: first_def)
  next
    case False
    then show ?thesis
      using try_unlink_ok[of "join p (fst c)" w] try_unlink_extends[of w "join p (fst c)"]
      by (simp add: first_def)
  qed
  obtain r w1 where h: "first = (r, w1)" by (cases first)
  with i have r: "r = Inr ()" and e1: "extends housekeeping w w1" by simp_all
  have eq: "rmtree_entries on_rm_error p (c # rest) w = rmtree_entries on_rm_error p rest w1"
    using h r by (simp add: first_def)
  have IH: "fst (rmtree_entries on_rm_error p rest w1) = Inr () \<and>
     extends housekeeping w1 (snd (rmtree_entries on_rm_error p rest w1))"
    using 4(2)[of r w1 "()"] h r by (simp add: first_def)
  show ?case
    unfolding eq using IH extends_trans[OF e1] by blast
qed

lemma shutil_rmtree_ok: "fst (shutil_rmtree p on_rm_error w) = Inr ()"
proof (cases "node_at w p")
  case None
  obtain r w1 where h: "on_rm_error Fscandir p (OSError ENOENT) w = (r, w1)"
    by (cases "on_rm_error Fscandir p (OSError ENOENT) w")
  from on_rm_error_ok[of Fscandir p "OSError ENOENT" w] h have "r = Inr ()" by simp
  with None h show ?thesis using try_rmdir_ok[of p w1] by (simp add: shutil_rmtree_def)
next
  case (Some n)
  then show ?thesis using rmtree_on_rm_error(1)[of p n w] by (simp add: shutil_rmtree_def)
qed

lemma shutil_rmtree_extends: "extends housekeeping w (snd (shutil_rmtree p on_rm_error w))"
proof (cases "node_at w p")
  case None
  obtain r w1 where h: "on_rm_error Fscandir p (OSError ENOENT) w = (r, w1)"
    by (cases "on_rm_error Fscandir p (OSError ENOENT) w")
  from on_rm_error_ok[of Fscandir p "OSError ENOENT" w] h have r: "r = Inr ()" by simp
  from on_rm_error_extends[of w Fscandir p "OSError ENOENT"] h have e1: "extends housekeeping w w1" by simp
  have e2: "extends housekeeping w1 (snd (try_rmdir on_rm_error p w1))" by (rule try_rmdir_extends)
  from None h r show ?thesis using extends_trans[OF e1 e2] by (simp add: shutil_rmtree_def)
next
  case (Some n)
  then show ?thesis using rmtree_on_rm_error(1)[of p n w] by (simp add: shutil_rmtree_def)
qed

lemma chmod_each_trace [simp]: "trace (snd (chmod_each ps m w)) = trace w"
proof (induction ps arbitrary: w)
  case Nil
  then show ?case by simp
next
  case (Cons p ps)
  obtain r w1 where h: "os_chmod p m w = (r, w1)" by (cases "os_chmod p m w")
  then have t: "trace w1 = trace w" by (rule os_chmod_traceD)
  show ?case using h t Cons[of w1] by (cases r) auto
qed

lemma fix_permissions_extends: "extends housekeeping w (fix_permissions path is_folder w)"
proof -
  define body where "body = (if is_folder then
              (case chmod_each (os_walk path w) 511 w of
                 (Inl e, w1) \<Rightarrow> (Inl e, w1)
               | (Inr u, w1) \<Rightarrow> os_chmod path 511 w1)
            else os_chmod path 511 w)"
  have t: "trace (snd body) = trace w"
  proof (cases is_folder)
    case False
    then show ?thesis by (simp add: body_def)
  next
    case True
    obtain r w1 where h: "chmod_each (os_walk path w) 511 w = (r, w1)"
      by (cases "chmod_each (os_walk path w) 511 w")
    with chmod_each_trace[of "os_walk path w" 511 w] have "trace w1 = trace w" by simp
    with True h show ?thesis by (cases r) (simp_all add: body_def)
  qed
  obtain r w1 where b: "body = (r, w1)" by (cases body)
  with t have "trace w1 = trace w" by simp
  moreover have "fix_permissions path is_folder w =
     (case body of (Inl e, w1) \<Rightarrow> print (Warn_perms e) w1 | (Inr u, w1) \<Rightarrow> w1)"
    by (simp add: fix_permissions_def body_def)
  ultimately show ?thesis using b by (cases r) (auto simp: extends_def)
qed

lemma remove_entry_extends: "extends housekeeping w (snd (remove_entry path is_folder w))"
  using shutil_rmtree_extends[of w path]
  by (auto simp: remove_entry_def intro: extends_same)

lemma remove_entry_folder_ok: "fst (remove_entry path True w) = Inr ()"
  by (simp add: remove_entry_def shutil_rmtree_ok)

section \<open>One pass of the retry loop\<close>

lemma attempt_extends:
  "extends housekeeping w (snd (remove_entry path is_folder (fix_permissions path is_folder w)))"
  using fix_permissions_extends remove_entry_extends by (rule extends_trans)

lemma time_sleep_ok: "0 \<le> d \<Longrightarrow> time_sleep d w = (Inr (), slept d w)"
  by (simp add: time_sleep_def)

lemma time_sleep_neg: "d < 0 \<Longrightarrow> time_sleep d w = (Inl ValueError, w)"
  by (simp add: time_sleep_def)

lemma slept_simps [simp]:
  "trace (slept d w) = trace w @ [Sleep d]"
  "fs (slept d w) = fs w"
  by (simp_all add: slept_def)

lemma quarantine_trace:
  "quarantine q p w = (r, w') \<Longrightarrow>
     trace w' = trace w @ (case r of Inl e \<Rightarrow> [] | Inr u \<Rightarrow> [Print (Act_quarantined (join q (basename p)))])"
  by (auto simp: quarantine_def split: prod.splits sum.splits
      dest!: os_makedirs_traceD shutil_move_traceD)

lemma delete_attempts_step:
  obtains
    (ok) w1 where "extends housekeeping w w1"
      "remove_entry p isf (fix_permissions p isf w) = (Inr (), w1)"
      "delete_attempts qd p isf m d (k # rest) w = (Inr (Some True), print (Act_deleted isf p) w1)"
  | (retry) e w1 where "extends housekeeping w w1"
      "remove_entry p isf (fix_permissions p isf w) = (Inl e, w1)" "k < m" "0 \<le> d"
      "delete_attempts qd p isf m d (k # rest) w =
         delete_attempts qd p isf m d rest (slept d (print (Warn_attempt k p e) w1))"
  | (raise) e w1 where "extends housekeeping w w1"
      "remove_entry p isf (fix_permissions p isf w) = (Inl e, w1)" "k < m" "d < 0"
      "delete_attempts qd p isf m d (k # rest) w = (Inl ValueError, print (Warn_attempt k p e) w1)"
  | (give_up) e w1 where "extends housekeeping w w1"
      "remove_entry p isf (fix_permissions p isf w) = (Inl e, w1)" "\<not> k < m" "qd = None"
      "delete_attempts qd p isf m d (k # rest) w =
         (Inr (Some False), print (Err_failed p m) (print (Warn_attempt k p e) w1))"
  | (moved) e w1 q w3 where "extends housekeeping w w1"
      "remove_entry p isf (fix_permissions p isf w) = (Inl e, w1)" "\<not> k < m" "qd = Some q"
      "quarantine q p (print (Warn_attempt k p e) w1) = (Inr (), w3)"
      "delete_attempts qd p isf m d (k # rest) w = (Inr (Some True), w3)"
  | (stuck) e w1 q w3 move_err where "extends housekeeping w w1"
      "remove_entry p isf (fix_permissions p isf w) = (Inl e, w1)" "\<not> k < m" "qd = Some q"
      "quarantine q p (print (Warn_attempt k p e) w1) = (Inl move_err, w3)"
      "delete_attempts qd p isf m d (k # rest) w =
         (Inr (Some False), print (Err_failed p m) (print (Err_quarantine move_err) w3))"
proof -
  obtain r w1 where a: "remove_entry p isf (fix_permissions p isf w) = (r, w1)"
    by (cases "remove_entry p isf (fix_permissions p isf w)")
  with attempt_extends[of w p isf] have ext: "extends housekeeping w w1" by simp
  show thesis
  proof (cases r)
    case (Inr u)
    with a have a2: "remove_entry p isf (fix_permissions p isf w) = (Inr (), w1)" by simp
    show ?thesis by (rule ok[OF ext a2]) (simp add: a2)
  next
    case (Inl e)
    with a have a2: "remove_entry p isf (fix_permissions p isf w) = (Inl e, w1)" by simp
    show ?thesis
    proof (cases "k < m")
      case True
      show ?thesis
      proof (cases "0 \<le> d")
        case True
        show ?thesis
          by (rule retry[OF ext a2 \<open>k < m\<close> True])
            (simp add: a2 \<open>k < m\<close> True time_sleep_ok)
      next
        case False
        then have neg: "d < 0" by simp
        show ?thesis
          by (rule raise[OF ext a2 \<open>k < m\<close> neg]) (simp add: a2 \<open>k < m\<close> neg time_sleep_neg)
      qed
    next
      case False
      show ?thesis
      proof (cases qd)
        case None
        show ?thesis by (rule give_up[OF ext a2 False None]) (simp add: a2 False None)
      next
        case (Some q)
        obtain r3 w3 where qq: "quarantine q p (print (Warn_attempt k p e) w1) = (r3, w3)"
          by (cases "quarantine q p (print (Warn_attempt k p e) w1)")
        show ?thesis
        proof (cases r3)
          case (Inr u)
          with qq have q2: "quarantine q p (print (Warn_attempt k p e) w1) = (Inr (), w3)" by simp
          show ?thesis by (rule moved[OF ext a2 False Some q2]) (simp add: a2 False Some q2)
        next
          case (Inl move_err)
          with qq have q2: "quarantine q p (print (Warn_attempt k p e) w1) = (Inl move_err, w3)"
            by simp
          show ?thesis by (rule stuck[OF ext a2 False Some q2]) (simp add: a2 False Some q2)
        qed
      qed
    qed
  qed
qed

lemma new_events_print [simp]: "new_events w (print l w) = [Print l]"
  by (simp add: new_events_def)

section \<open>The claims\<close>

text \<open>
  Claim C5. For a path that does not exist when \<^verbatim>\<open>delete_path\<close> is called, the call
  returns \<^verbatim>\<open>False\<close> at once: it raises nothing, its only effect is the line
  \<^verbatim>\<open>[INFO] Path does not exist\<close>, so it makes no attempt and does not sleep. This holds
  for \<^verbatim>\<open>delete_path\<close> of both files.
\<close>

theorem delete_path_missing:
  assumes "\<not> os_path_exists path w"
  shows "delete_path quarantine_dir path is_folder max_retries retry_delay w
           = (Inr (Some False), print (Info_not_exist path) w)
       \<and> delete_path2 path is_folder max_retries retry_delay w
           = (Inr (Some False), print (Info_not_exist path) w)
       \<and> sleeps (new_events w (print (Info_not_exist path) w)) = []
       \<and> attempts_made (new_events w (print (Info_not_exist path) w)) = 0"
  using assms
  by (simp add: delete_path_def delete_path2_def sleeps_def attempts_made_def steps_def)

theorem delete_path_missing_witness:
  "\<not> os_path_exists [''watch'', ''gone.txt''] (example_world no_fault reply_true)
   \<and> delete_path (Some quarantine_folder) [''watch'', ''gone.txt''] False 3 2
        (example_world no_fault reply_true)
       = (Inr (Some False),
          print (Info_not_exist [''watch'', ''gone.txt'']) (example_world no_fault reply_true))
   \<and> delete_path2 [''watch'', ''gone.txt''] False 3 2 (example_world no_fault reply_true)
       = (Inr (Some False),
          print (Info_not_exist [''watch'', ''gone.txt'']) (example_world no_fault reply_true))"
proof -
  have h: "\<not> os_path_exists [''watch'', ''gone.txt''] (example_world no_fault reply_true)"
    by (simp add: os_path_exists_def node_at_def example_world_def example_fs_def)
  show ?thesis
    using h delete_path_missing [OF h, of "Some quarantine_folder" False 3 2] by simp
qed

subsection \<open>Classification\<close>

lemma json_loads_reply_true: "json_loads reply_true = Inr (JObject [(''name_found'', JBool True)])"
  by code_simp

lemma json_loads_reply_false: "json_loads reply_false = Inr (JObject [(''name_found'', JBool False)])"
  by code_simp

lemma json_loads_default_reply: "json_loads default_reply = Inr (JObject [(''name_found'', JBool False)])"
  by code_simp

lemma json_loads_empty_array: "json_loads ''[]'' = Inr (JArray [])"
  by code_simp

lemma json_loads_only_decode_error: "json_loads s = Inl e \<Longrightarrow> e = JSONDecodeError"
  by (auto simp: json_loads_def split: option.splits)


lemma classify_llm_raises:
  "llm w name = Inl e \<Longrightarrow> classify name w = (Inr (JBool False), print (Err_llm name e) w)"
  by (simp add: classify_def check_names_def json_loads_default_reply)

lemma classify_not_json:
  "llm w name = Inr raw \<Longrightarrow> json_loads raw = Inl e \<Longrightarrow>
     classify name w = (Inr (JBool False), print (Warn_invalid_json name raw) w)"
  by (auto simp: classify_def check_names_def dest: json_loads_only_decode_error)

lemma classify_object:
  "llm w name = Inr raw \<Longrightarrow> json_loads raw = Inr (JObject kvs) \<Longrightarrow>
     classify name w =
       (Inr (case map_of (rev kvs) ''name_found'' of Some v \<Rightarrow> v | None \<Rightarrow> JBool False), w)"
  by (simp add: classify_def check_names_def split: option.splits)

lemma classify_not_object:
  "llm w name = Inr raw \<Longrightarrow> json_loads raw = Inr v \<Longrightarrow> \<forall>kvs. v \<noteq> JObject kvs \<Longrightarrow>
     classify name w = (Inl AttributeError, w)"
  by (cases v) (simp_all add: classify_def check_names_def)

text \<open>
  Claim C7. When the reply of the language model is the text \<^verbatim>\<open>{"name_found": true}\<close>,
  the classification step binds \<^verbatim>\<open>name_found\<close> to \<^verbatim>\<open>True\<close> and the verdict is true;
  when it is \<^verbatim>\<open>{"name_found": false}\<close>, it binds \<^verbatim>\<open>False\<close> and the verdict is false.
  Nothing is printed and nothing is raised.
\<close>

theorem classify_well_formed:
  "(llm w name = Inr reply_true \<longrightarrow>
      classify name w = (Inr (JBool True), w) \<and> verdict name w = Some True)
   \<and> (llm w name = Inr reply_false \<longrightarrow>
      classify name w = (Inr (JBool False), w) \<and> verdict name w = Some False)"
  by (simp add: verdict_def classify_object json_loads_reply_true json_loads_reply_false)

theorem classify_well_formed_witness:
  "llm (example_world no_fault reply_true) ''Rahul_Notes.docx'' = Inr reply_true
   \<and> classify ''Rahul_Notes.docx'' (example_world no_fault reply_true)
       = (Inr (JBool True), example_world no_fault reply_true)
   \<and> verdict ''Rahul_Notes.docx'' (example_world no_fault reply_true) = Some True
   \<and> llm (example_world no_fault reply_false) ''Q3_Summary.xlsx'' = Inr reply_false
   \<and> classify ''Q3_Summary.xlsx'' (example_world no_fault reply_false)
       = (Inr (JBool False), example_world no_fault reply_false)
   \<and> verdict ''Q3_Summary.xlsx'' (example_world no_fault reply_false) = Some False"
proof -
  have t: "llm (example_world no_fault reply_true) ''Rahul_Notes.docx'' = Inr reply_true"
    by (simp add: example_world_def)
  have f: "llm (example_world no_fault reply_false) ''Q3_Summary.xlsx'' = Inr reply_false"
    by (simp add: example_world_def)
  show ?thesis
    using t f
      classify_well_formed [of "example_world no_fault reply_true" "''Rahul_Notes.docx''"]
      classify_well_formed [of "example_world no_fault reply_false" "''Q3_Summary.xlsx''"]
    by simp
qed

text \<open>
  Claim C4, at the reply \<^verbatim>\<open>[]\<close>. The claim is that every malformed reply gives the
  verdict false and that nothing is raised. The lemmas above confirm it for a call
  that raises (\<open>classify_llm_raises\<close>), for text that is not JSON (\<open>classify_not_json\<close>)
  and for an object without the key (\<open>classify_object\<close>). A reply that is JSON but
  not an object has no \<^verbatim>\<open>get\<close>: \<^verbatim>\<open>response_json.get\<close> raises \<^verbatim>\<open>AttributeError\<close>, the
  \<^verbatim>\<open>except json.JSONDecodeError\<close> does not take it, and it leaves \<^verbatim>\<open>process_name\<close>
  (\<open>classify_not_object\<close>). Here the reply is the empty array: the classification and
  both variants of \<^verbatim>\<open>process_name\<close> raise, and the entry is left in place.
\<close>

theorem classify_array_reply_raises:
  "classify ''Rahul_Notes.docx'' (example_world no_fault ''[]'')
     = (Inl AttributeError, example_world no_fault ''[]'')
   \<and> fst (process_name (Some quarantine_folder) notes_file False (example_world no_fault ''[]''))
     = Inl AttributeError
   \<and> fst (process_name2 notes_file False (example_world no_fault ''[]'')) = Inl AttributeError
   \<and> os_path_exists notes_file
        (snd (process_name (Some quarantine_folder) notes_file False (example_world no_fault ''[]'')))"
proof -
  have l: "llm w n = Inr ''[]''" if "llm w = (\<lambda>name. Inr ''[]'')" for w :: world and n
    using that by simp
  have c: "classify n w = (Inl AttributeError, w)" if "llm w = (\<lambda>name. Inr ''[]'')" for w :: world and n
    using classify_not_object[OF l[OF that] json_loads_empty_array] by simp
  have e: "llm (example_world no_fault ''[]'') = (\<lambda>name. Inr ''[]'')"
    by (simp add: example_world_def)
  have x: "os_path_exists notes_file (example_world no_fault ''[]'')"
    by (simp add: os_path_exists_def node_at_def example_world_def example_fs_def notes_file_def)
  show ?thesis
    using x by (simp add: c e process_name_def process_name2_def get_owner_def
        example_world_def[of no_fault "''[]''", THEN arg_cong[of _ _ security]] Let_def split: prod.splits)
qed

subsection \<open>Steps of a trace\<close>

lemma steps_append [simp]: "steps (xs @ ys) = steps xs @ steps ys"
  by (simp add: steps_def)

lemma steps_Nil [simp]: "steps [] = []"
  by (simp add: steps_def)

lemma steps_Cons [simp]:
  "steps (ev # evs) = (case step_of ev of None \<Rightarrow> [] | Some s \<Rightarrow> [s]) @ steps evs"
  by (simp add: steps_def)

lemma step_of_housekeeping: "housekeeping ev \<Longrightarrow> step_of ev = None"
  by (induction ev rule: housekeeping.induct) simp_all

lemma steps_housekeeping: "list_all housekeeping evs \<Longrightarrow> steps evs = []"
  by (induction evs) (simp_all add: step_of_housekeeping)

lemma new_events_append: "trace w' = trace w @ evs \<Longrightarrow> new_events w w' = evs"
  by (simp add: new_events_def)

lemma folder_first_attempt:
  obtains w1 where "extends housekeeping w w1"
    "delete_attempts qd path True m d (k # rest) w = (Inr (Some True), print (Act_deleted True path) w1)"
    "delete_attempts2 path True m d (k # rest) w = (Inr (Some True), print (Act_deleted True path) w1)"
proof -
  obtain r w1 where a: "remove_entry path True (fix_permissions path True w) = (r, w1)"
    by (cases "remove_entry path True (fix_permissions path True w)")
  with attempt_extends[of w path True] have ext: "extends housekeeping w w1" by simp
  from remove_entry_folder_ok[of path "fix_permissions path True w"] a have "r = Inr ()" by simp
  with a ext that show thesis by simp
qed

text \<open>
  Claim C9. For a folder (\<^verbatim>\<open>is_folder\<close> true) that exists, with at least one attempt
  allowed, \<^verbatim>\<open>delete_path\<close> returns \<^verbatim>\<open>True\<close> on the first attempt whatever happens to
  the entries inside: the handler \<^verbatim>\<open>on_rm_error\<close> takes every error of
  \<^verbatim>\<open>shutil.rmtree\<close> and raises none, so the run shows one attempt, the success line as
  its last line, no failed attempt, no sleep and no line of the fall-back; all it
  prints before the success line are the lines of the permission fix and the handler.
  This holds for both files. The witness is a folder that holds a file in use: the
  call returns \<^verbatim>\<open>True\<close>, and the folder and the file are still there.
\<close>

theorem folder_delete_reports_success:
  assumes "os_path_exists path w" and "1 \<le> max_retries"
  shows "fst (delete_path quarantine_dir path True max_retries retry_delay w) = Inr (Some True)
       \<and> steps (new_events w (snd (delete_path quarantine_dir path True max_retries retry_delay w)))
           = [Attempt_ok]
       \<and> last (trace (snd (delete_path quarantine_dir path True max_retries retry_delay w)))
           = Print (Act_deleted True path)
       \<and> list_all housekeeping
           (butlast (new_events w
              (snd (delete_path quarantine_dir path True max_retries retry_delay w))))
       \<and> delete_path2 path True max_retries retry_delay w
           = delete_path quarantine_dir path True max_retries retry_delay w"
proof -
  from assms(2) have u: "[1..max_retries] = 1 # [2..max_retries]"
    by (simp add: upto_rec1)
  obtain w1 where ext: "extends housekeeping w w1"
    and d1: "delete_attempts quarantine_dir path True max_retries retry_delay (1 # [2..max_retries]) w
              = (Inr (Some True), print (Act_deleted True path) w1)"
    and d2: "delete_attempts2 path True max_retries retry_delay (1 # [2..max_retries]) w
              = (Inr (Some True), print (Act_deleted True path) w1)"
    by (rule folder_first_attempt)
  from ext obtain evs where t: "trace w1 = trace w @ evs" and hk: "list_all housekeeping evs"
    by (auto simp: extends_def)
  have r1: "delete_path quarantine_dir path True max_retries retry_delay w
              = (Inr (Some True), print (Act_deleted True path) w1)"
    using assms(1) u d1 by (simp add: delete_path_def)
  have r2: "delete_path2 path True max_retries retry_delay w
              = (Inr (Some True), print (Act_deleted True path) w1)"
    using assms(1) u d2 by (simp add: delete_path2_def)
  have n: "new_events w (print (Act_deleted True path) w1) = evs @ [Print (Act_deleted True path)]"
    by (rule new_events_append) (simp add: t)
  show ?thesis
    using hk by (simp add: r1 r2 n steps_housekeeping)
qed

theorem folder_delete_reports_success_witness:
  "os_path_exists report (example_world (in_use (join report ''q1.xlsx'')) reply_true)
   \<and> (1::int) \<le> 3
   \<and> fst (delete_path (Some quarantine_folder) report True 3 2
             (example_world (in_use (join report ''q1.xlsx'')) reply_true)) = Inr (Some True)
   \<and> steps (new_events (example_world (in_use (join report ''q1.xlsx'')) reply_true)
        (snd (delete_path (Some quarantine_folder) report True 3 2
               (example_world (in_use (join report ''q1.xlsx'')) reply_true)))) = [Attempt_ok]
   \<and> os_path_exists report
        (snd (delete_path (Some quarantine_folder) report True 3 2
               (example_world (in_use (join report ''q1.xlsx'')) reply_true)))
   \<and> os_path_exists (join report ''q1.xlsx'')
        (snd (delete_path (Some quarantine_folder) report True 3 2
               (example_world (in_use (join report ''q1.xlsx'')) reply_true)))
   \<and> \<not> os_path_exists (join report ''q2.xlsx'')
        (snd (delete_path (Some quarantine_folder) report True 3 2
               (example_world (in_use (join report ''q1.xlsx'')) reply_true)))"
proof -
  have h: "os_path_exists report (example_world (in_use (join report ''q1.xlsx'')) reply_true)"
    by code_simp
  have k: "(1::int) \<le> 3" by simp
  have a: "os_path_exists report
        (snd (delete_path (Some quarantine_folder) report True 3 2
               (example_world (in_use (join report ''q1.xlsx'')) reply_true)))"
    by code_simp
  have b: "os_path_exists (join report ''q1.xlsx'')
        (snd (delete_path (Some quarantine_folder) report True 3 2
               (example_world (in_use (join report ''q1.xlsx'')) reply_true)))"
    by code_simp
  have c: "\<not> os_path_exists (join report ''q2.xlsx'')
        (snd (delete_path (Some quarantine_folder) report True 3 2
               (example_world (in_use (join report ''q1.xlsx'')) reply_true)))"
    by code_simp
  show ?thesis
    using h k a b c
      folder_delete_reports_success [OF h k, of "Some quarantine_folder" 2]
    by simp
qed

subsection \<open>The loop as a whole\<close>

lemma delete_attempts2_eq:
  "delete_attempts2 p isf m d atts w = delete_attempts None p isf m d atts w"
  by (induction atts arbitrary: w) (simp_all add: Let_def split: prod.splits sum.splits)

lemma delete_path2_eq: "delete_path2 p isf m d w = delete_path None p isf m d w"
  by (simp add: delete_path2_def delete_path_def delete_attempts2_eq)

lemma extends_slept: "P (Sleep d) \<Longrightarrow> extends P w w1 \<Longrightarrow> extends P w (slept d w1)"
  by (auto simp: extends_def)

lemma deletion_event_simps [simp]:
  "deletion_event (Print (Act_deleted f p))"
  "deletion_event (Print (Warn_attempt k p e))"
  "deletion_event (Print (Act_quarantined p))"
  "deletion_event (Print (Err_quarantine e))"
  "deletion_event (Print (Err_failed p n))"
  "deletion_event (Sleep d)"
  "\<not> deletion_event (Run cmd)"
  by (simp_all add: deletion_event_def)

lemma housekeeping_deletion: "extends housekeeping w w1 \<Longrightarrow> extends deletion_event w w1"
  by (erule extends_mono) (simp add: deletion_event_def)

lemma delete_attempts_extends:
  "extends deletion_event w (snd (delete_attempts qd p isf m d atts w))"
proof (induction atts arbitrary: w)
  case Nil
  then show ?case by simp
next
  case (Cons k rest)
  show ?case
  proof (cases rule: delete_attempts_step[of w p isf qd m d k rest])
    case (ok w1)
    then show ?thesis
      by (simp add: extends_print housekeeping_deletion)
  next
    case (retry e w1)
    have "extends deletion_event w (slept d (print (Warn_attempt k p e) w1))"
      using retry(1) by (simp add: extends_slept extends_print housekeeping_deletion)
    then show ?thesis
      using Cons[of "slept d (print (Warn_attempt k p e) w1)"] retry(5)
      by (auto intro: extends_trans)
  next
    case (raise e w1)
    then show ?thesis
      by (simp add: extends_print housekeeping_deletion)
  next
    case (give_up e w1)
    then show ?thesis
      by (simp add: extends_print housekeeping_deletion)
  next
    case (moved e w1 q w3)
    have a: "extends deletion_event w (print (Warn_attempt k p e) w1)"
      using moved(1) by (simp add: extends_print housekeeping_deletion)
    have "extends deletion_event (print (Warn_attempt k p e) w1) w3"
      using quarantine_trace[OF moved(5)] by (simp add: extends_def)
    with a moved(6) show ?thesis by (auto intro: extends_trans)
  next
    case (stuck e w1 q w3 move_err)
    have a: "extends deletion_event w (print (Warn_attempt k p e) w1)"
      using stuck(1) by (simp add: extends_print housekeeping_deletion)
    have "extends deletion_event (print (Warn_attempt k p e) w1) w3"
      using quarantine_trace[OF stuck(5)] by (simp add: extends_def)
    with a have "extends deletion_event w w3" by (rule extends_trans)
    with stuck(6) show ?thesis by (simp add: extends_print)
  qed
qed

lemma delete_path_extends:
  "extends deletion_event w (snd (delete_path qd p isf m d w))
     \<or> (\<not> os_path_exists p w \<and> delete_path qd p isf m d w = (Inr (Some False), print (Info_not_exist p) w))"
  by (simp add: delete_path_def delete_attempts_extends)

lemma new_events_split:
  "trace w1 = trace w @ evs \<Longrightarrow> extends P w1 w' \<Longrightarrow> new_events w w' = evs @ new_events w1 w'"
  by (auto simp: extends_def new_events_def)

lemma new_events_self [simp]: "new_events w w = []"
  by (simp add: new_events_def)

lemma retry_steps:
  assumes "0 \<le> d"
    and "Attempt_ok \<notin> set (steps (new_events w (snd (delete_attempts qd p isf m d [k..m] w))))"
  shows "\<exists>fb. steps (new_events w (snd (delete_attempts qd p isf m d [k..m] w)))
            = concat (map (\<lambda>j. if j < m then [Attempt_failed j, Slept d] else [Attempt_failed j]) [k..m]) @ fb
          \<and> list_all (\<lambda>s. s = Fallback) fb"
  using assms
proof (induction k m arbitrary: w rule: upto.induct)
  case (1 k m)
  show ?case
  proof (cases "k \<le> m")
    case False
    then show ?thesis by simp
  next
    case True
    then have u: "[k..m] = k # [k + 1..m]" by (simp add: upto_rec1)
    show ?thesis
    proof (cases rule: delete_attempts_step[of w p isf qd m d k "[k + 1..m]"])
      case (ok w1)
      from ok(1) obtain evs where t: "trace w1 = trace w @ evs" by (auto simp: extends_def)
      have "new_events w (print (Act_deleted isf p) w1) = evs @ [Print (Act_deleted isf p)]"
        by (rule new_events_append) (simp add: t)
      with 1(3) ok(3) u show ?thesis by simp
    next
      case (retry e w1)
      from retry(1) obtain evs where t: "trace w1 = trace w @ evs" and hk: "list_all housekeeping evs"
        by (auto simp: extends_def)
      define w3 where "w3 = slept d (print (Warn_attempt k p e) w1)"
      define w' where "w' = snd (delete_attempts qd p isf m d [k + 1..m] w3)"
      have t3: "trace w3 = trace w @ (evs @ [Print (Warn_attempt k p e), Sleep d])"
        by (simp add: w3_def t)
      have ne: "new_events w w' = (evs @ [Print (Warn_attempt k p e), Sleep d]) @ new_events w3 w'"
        using t3 delete_attempts_extends[of w3 qd p isf m d "[k + 1..m]"]
        unfolding w'_def by (rule new_events_split)
      have res: "snd (delete_attempts qd p isf m d [k..m] w) = w'"
        using retry(5) u by (simp add: w'_def w3_def)
      have st: "steps (new_events w w') = [Attempt_failed k, Slept d] @ steps (new_events w3 w')"
        using hk by (simp add: ne steps_housekeeping)
      from 1(3) res st have "Attempt_ok \<notin> set (steps (new_events w3 w'))" by simp
      with 1(1)[OF True \<open>0 \<le> d\<close>, of w3] obtain fb where
        fb: "steps (new_events w3 w')
               = concat (map (\<lambda>j. if j < m then [Attempt_failed j, Slept d] else [Attempt_failed j]) [k + 1..m]) @ fb"
        and all: "list_all (\<lambda>s. s = Fallback) fb"
        unfolding w'_def by blast
      show ?thesis
        unfolding res st using fb all retry(3) by (simp add: u)
    next
      case (raise e w1)
      with 1(2) show ?thesis by simp
    next
      case (give_up e w1)
      from give_up(1) obtain evs where t: "trace w1 = trace w @ evs" and hk: "list_all housekeeping evs"
        by (auto simp: extends_def)
      from give_up(3) True have km: "k = m" by simp
      have "new_events w (print (Err_failed p m) (print (Warn_attempt k p e) w1))
              = evs @ [Print (Warn_attempt k p e), Print (Err_failed p m)]"
        by (rule new_events_append) (simp add: t)
      then show ?thesis
        using hk give_up(5) km by (simp add: steps_housekeeping)
    next
      case (moved e w1 q w3)
      from moved(1) obtain evs where t: "trace w1 = trace w @ evs" and hk: "list_all housekeeping evs"
        by (auto simp: extends_def)
      from moved(3) True have km: "k = m" by simp
      have "new_events w w3 = evs @ [Print (Warn_attempt k p e), Print (Act_quarantined (join q (basename p)))]"
        by (rule new_events_append) (simp add: t quarantine_trace[OF moved(5)])
      then show ?thesis
        using hk moved(6) km by (simp add: steps_housekeeping)
    next
      case (stuck e w1 q w3 move_err)
      from stuck(1) obtain evs where t: "trace w1 = trace w @ evs" and hk: "list_all housekeeping evs"
        by (auto simp: extends_def)
      from stuck(3) True have km: "k = m" by simp
      have "new_events w (print (Err_failed p m) (print (Err_quarantine move_err) w3))
              = evs @ [Print (Warn_attempt k p e), Print (Err_quarantine move_err), Print (Err_failed p m)]"
        by (rule new_events_append) (simp add: t quarantine_trace[OF stuck(5)])
      then show ?thesis
        using hk stuck(6) km by (simp add: steps_housekeeping)
    qed
  qed
qed


lemma expected_counts:
  "length (filter is_attempt
     (concat (map (\<lambda>j. if j < m then [Attempt_failed j, Slept d] else [Attempt_failed j]) [k..m])))
     = nat (m - k + 1)
   \<and> concat (map (\<lambda>s. case s of Slept d \<Rightarrow> [d] | _ \<Rightarrow> [])
       (concat (map (\<lambda>j. if j < m then [Attempt_failed j, Slept d] else [Attempt_failed j]) [k..m])))
     = replicate (nat (m - k)) d"
proof (induction k m rule: upto.induct)
  case (1 k m)
  show ?case
  proof (cases "k \<le> m")
    case False
    then show ?thesis by simp
  next
    case True
    then have u: "[k..m] = k # [k + 1..m]" by (simp add: upto_rec1)
    have n1: "nat (m - k + 1) = Suc (nat (m - (k + 1) + 1))" using True by simp
    show ?thesis
    proof (cases "k < m")
      case True
      then have n2: "nat (m - k) = Suc (nat (m - (k + 1)))" by simp
      from 1[OF \<open>k \<le> m\<close>] True show ?thesis by (simp add: u n1 n2)
    next
      case False
      with \<open>k \<le> m\<close> have "k = m" by simp
      then show ?thesis by simp
    qed
  qed
qed

lemma fallback_counts:
  "list_all (\<lambda>s. s = Fallback) fb \<Longrightarrow>
     filter is_attempt fb = [] \<and> concat (map (\<lambda>s. case s of Slept d \<Rightarrow> [d] | _ \<Rightarrow> []) fb) = []"
  by (induction fb) auto

text \<open>
  Claim C1. Take an existing path, a retry count and a delay that are not negative, and
  a run of \<^verbatim>\<open>delete_path\<close> in which no attempt succeeds (the success line is not
  printed). Then the steps of the run are exactly: attempt 1 fails, sleep \<open>retry_delay\<close>,
  attempt 2 fails, sleep, ..., attempt \<open>max_retries\<close> fails, and after them nothing but
  the fall-back (the lines of the quarantine branch, the final error line). So the
  run makes exactly \<open>max_retries\<close> attempts and sleeps \<open>max_retries - 1\<close> times, each time
  for \<open>retry_delay\<close>, after each failed attempt but the last. \<^verbatim>\<open>delete_path\<close> of
  \<^verbatim>\<open>guardianAI2.py\<close> is \<^verbatim>\<open>delete_path\<close> of \<^verbatim>\<open>guardianAI.py\<close> without a quarantine directory,
  so the same holds for it.
\<close>

theorem retries_when_every_attempt_fails:
  assumes "os_path_exists path w" and "0 \<le> max_retries" and "0 \<le> retry_delay"
    and "Attempt_ok \<notin> set (steps (new_events w
           (snd (delete_path quarantine_dir path is_folder max_retries retry_delay w))))"
  shows "(\<exists>fb. steps (new_events w
                  (snd (delete_path quarantine_dir path is_folder max_retries retry_delay w)))
                = expected_steps max_retries retry_delay @ fb
              \<and> list_all (\<lambda>s. s = Fallback) fb)
       \<and> int (attempts_made (new_events w
                  (snd (delete_path quarantine_dir path is_folder max_retries retry_delay w))))
           = max_retries
       \<and> sleeps (new_events w
                  (snd (delete_path quarantine_dir path is_folder max_retries retry_delay w)))
           = replicate (nat (max_retries - 1)) retry_delay
       \<and> delete_path2 path is_folder max_retries retry_delay w
           = delete_path None path is_folder max_retries retry_delay w"
proof -
  let ?w' = "snd (delete_path quarantine_dir path is_folder max_retries retry_delay w)"
  have e: "?w' = snd (delete_attempts quarantine_dir path is_folder max_retries retry_delay
                       [1..max_retries] w)"
    using assms(1) by (simp add: delete_path_def)
  from assms(4) have "Attempt_ok \<notin> set (steps (new_events w
      (snd (delete_attempts quarantine_dir path is_folder max_retries retry_delay [1..max_retries] w))))"
    unfolding e .
  from retry_steps[OF assms(3) this] obtain fb where
    fb: "steps (new_events w ?w') = expected_steps max_retries retry_delay @ fb"
    and all: "list_all (\<lambda>s. s = Fallback) fb"
    unfolding e expected_steps_def by blast
  from expected_counts[of max_retries retry_delay 1] fallback_counts[OF all] assms(2)
  have "int (attempts_made (new_events w ?w')) = max_retries"
    and "sleeps (new_events w ?w') = replicate (nat (max_retries - 1)) retry_delay"
    by (simp_all add: attempts_made_def sleeps_def fb expected_steps_def)
  with fb all show ?thesis by (auto simp: delete_path2_eq)
qed

theorem retries_when_every_attempt_fails_witness:
  "os_path_exists notes_file (example_world (in_use notes_file) reply_true)
   \<and> (0::int) \<le> 3 \<and> (0::int) \<le> 2
   \<and> Attempt_ok \<notin> set (steps (new_events (example_world (in_use notes_file) reply_true)
        (snd (delete_path (Some quarantine_folder) notes_file False 3 2
               (example_world (in_use notes_file) reply_true)))))
   \<and> steps (new_events (example_world (in_use notes_file) reply_true)
        (snd (delete_path (Some quarantine_folder) notes_file False 3 2
               (example_world (in_use notes_file) reply_true))))
       = [Attempt_failed 1, Slept 2, Attempt_failed 2, Slept 2, Attempt_failed 3, Fallback]
   \<and> expected_steps 3 2 = [Attempt_failed 1, Slept 2, Attempt_failed 2, Slept 2, Attempt_failed 3]
   \<and> int (attempts_made (new_events (example_world (in_use notes_file) reply_true)
        (snd (delete_path (Some quarantine_folder) notes_file False 3 2
               (example_world (in_use notes_file) reply_true))))) = 3
   \<and> sleeps (new_events (example_world (in_use notes_file) reply_true)
        (snd (delete_path (Some quarantine_folder) notes_file False 3 2
               (example_world (in_use notes_file) reply_true)))) = [2, 2]"
proof -
  have h1: "os_path_exists notes_file (example_world (in_use notes_file) reply_true)"
    by code_simp
  have h2: "(0::int) \<le> 3" and h3: "(0::int) \<le> 2" by simp_all
  have st: "steps (new_events (example_world (in_use notes_file) reply_true)
        (snd (delete_path (Some quarantine_folder) notes_file False 3 2
               (example_world (in_use notes_file) reply_true))))
       = [Attempt_failed 1, Slept 2, Attempt_failed 2, Slept 2, Attempt_failed 3, Fallback]"
    by code_simp
  have h4: "Attempt_ok \<notin> set (steps (new_events (example_world (in_use notes_file) reply_true)
        (snd (delete_path (Some quarantine_folder) notes_file False 3 2
               (example_world (in_use notes_file) reply_true)))))"
    unfolding st by simp
  have ex: "expected_steps 3 2 = [Attempt_failed 1, Slept 2, Attempt_failed 2, Slept 2, Attempt_failed 3]"
    by code_simp
  have r: "replicate 2 (2::int) = [2, 2]" by code_simp
  show ?thesis
    using h1 h2 h3 h4 st ex retries_when_every_attempt_fails [OF h1 h2 h3 h4]
    by (simp add: r)
qed

subsection \<open>What a failed attempt leaves in place\<close>

lemma alter_Some: "f = map_option g \<Longrightarrow> alter f p (Some r) \<noteq> None"
  by (cases p; cases r) auto

lemma node_at_chmod_None:
  "(node_at (put_fs (map_option (set_read_only b)) p w) q = None) = (node_at w q = None)"
proof -
  obtain r where r: "alter (map_option (set_read_only b)) p (Some (fs w)) = Some r"
    using alter_Some[of "map_option (set_read_only b)" "set_read_only b" p "fs w"] by auto
  have "lookup (alter (map_option (set_read_only b)) p (Some (fs w))) q = None
          \<longleftrightarrow> lookup (Some (fs w)) q = None"
    by (rule lookup_chmod_None)
  with r show ?thesis by (simp add: node_at_def put_fs_def)
qed

lemma exists_put_chmod:
  "os_path_exists q (put_fs (map_option (set_read_only b)) p w) = os_path_exists q w"
  unfolding os_path_exists_def by (simp only: node_at_chmod_None)

lemma os_chmod_exists:
  "os_path_exists q (snd (os_chmod p m w)) = os_path_exists q w"
  by (simp add: os_chmod_def exists_put_chmod split: option.splits)

lemma chmod_each_exists:
  "os_path_exists q (snd (chmod_each ps m w)) = os_path_exists q w"
proof (induction ps arbitrary: w)
  case Nil
  then show ?case by simp
next
  case (Cons p ps)
  obtain r w1 where h: "os_chmod p m w = (r, w1)" by (cases "os_chmod p m w")
  with os_chmod_exists[of q p m w] have "os_path_exists q w1 = os_path_exists q w" by simp
  with h Cons[of w1] show ?case by (cases r) auto
qed

lemma fix_permissions_exists:
  "os_path_exists q (fix_permissions path is_folder w) = os_path_exists q w"
proof -
  define body where "body = (if is_folder then
              (case chmod_each (os_walk path w) 511 w of
                 (Inl e, w1) \<Rightarrow> (Inl e, w1)
               | (Inr u, w1) \<Rightarrow> os_chmod path 511 w1)
            else os_chmod path 511 w)"
  have t: "os_path_exists q (snd body) = os_path_exists q w"
  proof (cases is_folder)
    case False
    then show ?thesis by (simp add: body_def os_chmod_exists)
  next
    case True
    obtain r w1 where h: "chmod_each (os_walk path w) 511 w = (r, w1)"
      by (cases "chmod_each (os_walk path w) 511 w")
    with chmod_each_exists[of q "os_walk path w" 511 w]
    have "os_path_exists q w1 = os_path_exists q w" by simp
    with True h show ?thesis by (cases r) (simp_all add: body_def os_chmod_exists)
  qed
  obtain r w1 where b: "body = (r, w1)" by (cases body)
  with t have "os_path_exists q w1 = os_path_exists q w" by simp
  moreover have "fix_permissions path is_folder w =
     (case body of (Inl e, w1) \<Rightarrow> print (Warn_perms e) w1 | (Inr u, w1) \<Rightarrow> w1)"
    by (simp add: fix_permissions_def body_def)
  ultimately show ?thesis using b by (cases r) auto
qed

lemma os_unlink_failed: "os_unlink p w = (Inl e, w') \<Longrightarrow> w' = w"
  by (auto simp: os_unlink_def split: option.splits node.splits if_splits)

lemma remove_entry_failed: "remove_entry p isf w = (Inl e, w') \<Longrightarrow> \<not> isf \<and> w' = w"
  using shutil_rmtree_ok[of p w]
  by (cases isf) (auto simp: remove_entry_def os_remove_def dest: os_unlink_failed)

lemma failed_attempt_exists:
  "remove_entry p isf (fix_permissions p isf w) = (Inl e, w1) \<Longrightarrow>
     os_path_exists q w1 = os_path_exists q w"
  by (auto dest!: remove_entry_failed simp: fix_permissions_exists)

lemma exists_slept [simp]: "os_path_exists q (slept d w) = os_path_exists q w"
  by (simp add: os_path_exists_def node_at_def)

lemma no_quarantine_keeps_path:
  assumes "os_path_exists p w"
    and "Attempt_ok \<notin> set (steps (new_events w (snd (delete_attempts None p isf m d atts w))))"
  shows "os_path_exists p (snd (delete_attempts None p isf m d atts w))"
  using assms
proof (induction atts arbitrary: w)
  case Nil
  then show ?case by simp
next
  case (Cons k rest)
  show ?case
  proof (cases rule: delete_attempts_step[of w p isf None m d k rest])
    case (ok w1)
    from ok(1) obtain evs where t: "trace w1 = trace w @ evs" by (auto simp: extends_def)
    have "new_events w (print (Act_deleted isf p) w1) = evs @ [Print (Act_deleted isf p)]"
      by (rule new_events_append) (simp add: t)
    with Cons.prems(2) ok(3) show ?thesis by simp
  next
    case (retry e w1)
    from retry(1) obtain evs where t: "trace w1 = trace w @ evs" by (auto simp: extends_def)
    define w3 where "w3 = slept d (print (Warn_attempt k p e) w1)"
    define w' where "w' = snd (delete_attempts None p isf m d rest w3)"
    have t3: "trace w3 = trace w @ (evs @ [Print (Warn_attempt k p e), Sleep d])"
      by (simp add: w3_def t)
    have ne: "new_events w w' = (evs @ [Print (Warn_attempt k p e), Sleep d]) @ new_events w3 w'"
      using t3 delete_attempts_extends[of w3 None p isf m d rest]
      unfolding w'_def by (rule new_events_split)
    have res: "snd (delete_attempts None p isf m d (k # rest) w) = w'"
      using retry(5) by (simp add: w'_def w3_def)
    from Cons.prems(2) have "Attempt_ok \<notin> set (steps (new_events w3 w'))"
      unfolding res ne by simp
    moreover have "os_path_exists p w3"
      using failed_attempt_exists[OF retry(2), of p] Cons.prems(1) by (simp add: w3_def)
    ultimately show ?thesis
      using Cons.IH[of w3] unfolding res w'_def by simp
  next
    case (raise e w1)
    then show ?thesis
      using failed_attempt_exists[OF raise(2), of p] Cons.prems(1) by simp
  next
    case (give_up e w1)
    then show ?thesis
      using failed_attempt_exists[OF give_up(2), of p] Cons.prems(1) by simp
  next
    case (moved e w1 q w3)
    then show ?thesis by simp
  next
    case (stuck e w1 q w3 move_err)
    then show ?thesis by simp
  qed
qed

text \<open>
  Claim C6. Take an existing path and a run of \<^verbatim>\<open>delete_path\<close> with no quarantine
  directory in which no attempt succeeds, so that every attempt made has failed. Then
  the path still exists when \<^verbatim>\<open>delete_path\<close> returns. \<^verbatim>\<open>delete_path\<close> of
  \<^verbatim>\<open>guardianAI2.py\<close>, which has no quarantine directory at all, is that run.
\<close>

theorem failed_delete_keeps_path:
  assumes "os_path_exists path w"
    and "Attempt_ok \<notin> set (steps (new_events w
           (snd (delete_path None path is_folder max_retries retry_delay w))))"
  shows "os_path_exists path (snd (delete_path None path is_folder max_retries retry_delay w))
       \<and> delete_path2 path is_folder max_retries retry_delay w
           = delete_path None path is_folder max_retries retry_delay w"
proof -
  have e: "snd (delete_path None path is_folder max_retries retry_delay w)
         = snd (delete_attempts None path is_folder max_retries retry_delay [1..max_retries] w)"
    using assms(1) by (simp add: delete_path_def)
  from assms(2) have "Attempt_ok \<notin> set (steps (new_events w
      (snd (delete_attempts None path is_folder max_retries retry_delay [1..max_retries] w))))"
    unfolding e .
  from no_quarantine_keeps_path[OF assms(1) this] show ?thesis
    by (simp add: e delete_path2_eq)
qed

theorem failed_delete_keeps_path_witness:
  "os_path_exists notes_file (example_world (in_use notes_file) reply_true)
   \<and> Attempt_ok \<notin> set (steps (new_events (example_world (in_use notes_file) reply_true)
        (snd (delete_path None notes_file False 3 2
               (example_world (in_use notes_file) reply_true)))))
   \<and> fst (delete_path None notes_file False 3 2 (example_world (in_use notes_file) reply_true))
       = Inr (Some False)
   \<and> os_path_exists notes_file
        (snd (delete_path None notes_file False 3 2
               (example_world (in_use notes_file) reply_true)))
   \<and> os_path_exists notes_file
        (snd (delete_path2 notes_file False 3 2
               (example_world (in_use notes_file) reply_true)))"
proof -
  have h1: "os_path_exists notes_file (example_world (in_use notes_file) reply_true)"
    by code_simp
  have h2: "Attempt_ok \<notin> set (steps (new_events (example_world (in_use notes_file) reply_true)
        (snd (delete_path None notes_file False 3 2
               (example_world (in_use notes_file) reply_true)))))"
    by code_simp
  have r: "fst (delete_path None notes_file False 3 2 (example_world (in_use notes_file) reply_true))
       = Inr (Some False)"
    by code_simp
  show ?thesis
    using h1 h2 r failed_delete_keeps_path [OF h1 h2] by simp
qed

subsection \<open>The pipeline\<close>

lemma delete_attempts_no_raise:
  "0 \<le> d \<Longrightarrow> \<exists>r. fst (delete_attempts qd p isf m d atts w) = Inr r"
proof (induction atts arbitrary: w)
  case Nil
  then show ?case by simp
next
  case (Cons k rest)
  show ?case
  proof (cases rule: delete_attempts_step[of w p isf qd m d k rest])
    case (retry e w1)
    with Cons show ?thesis by simp
  next
    case (raise e w1)
    with Cons.prems show ?thesis by simp
  qed simp_all
qed

lemma delete_path_no_raise: "0 \<le> d \<Longrightarrow> \<exists>r. fst (delete_path qd p isf m d w) = Inr r"
  by (simp add: delete_path_def delete_attempts_no_raise)

lemma quiet_refl [simp]: "quiet w w"
  by (simp add: quiet_def)

lemma quiet_trans: "quiet w w1 \<Longrightarrow> quiet w1 w2 \<Longrightarrow> quiet w w2"
  unfolding quiet_def by (rule extends_trans)

lemma quiet_print [simp]: "quiet w (print l w)"
  by (simp add: quiet_def extends_def)

lemma quiet_print_after [simp]: "quiet w w1 \<Longrightarrow> quiet w (print l w1)"
  by (auto simp: quiet_def extends_def)

lemma quiet_runs:
  "quiet w w1 \<Longrightarrow> extends P w1 w' \<Longrightarrow>
     filter is_run (new_events w w') = filter is_run (new_events w1 w')
     \<and> set (new_events w1 w') \<subseteq> set (new_events w w')"
  by (auto simp: quiet_def extends_def new_events_def list_all_iff filter_empty_conv)

lemma quiet_delete_path: "quiet w (snd (delete_path qd p isf m d w))"
proof (cases "os_path_exists p w")
  case False
  then show ?thesis by (simp add: delete_path_def)
next
  case True
  have "extends deletion_event w (snd (delete_attempts qd p isf m d [1..m] w))"
    by (rule delete_attempts_extends)
  then have "extends (\<lambda>ev. \<not> is_run ev) w (snd (delete_attempts qd p isf m d [1..m] w))"
    by (rule extends_mono) (auto elim: is_run.elims)
  with True show ?thesis by (simp add: delete_path_def quiet_def)
qed

lemma get_owner_quiet: "quiet w (snd (get_owner path w)) \<and> llm (snd (get_owner path w)) = llm w"
  by (simp add: get_owner_def split: sum.splits prod.splits)

lemma classify_quiet: "quiet w (snd (classify name w))"
  by (simp add: classify_def check_names_def split: sum.splits prod.splits)

lemma classify_llm: "llm w' = llm w \<Longrightarrow> fst (classify name w') = fst (classify name w)"
  by (simp add: classify_def check_names_def split: sum.splits prod.splits)

lemma table_values:
  "user_to_machine owner = Some m \<Longrightarrow> m \<noteq> []"
  "user_to_machine2 owner = Some m \<Longrightarrow> m \<noteq> []"
  by (auto simp: user_to_machine_def user_to_machine_table_def
      user_to_machine2_def user_to_machine_table2_def split: if_splits)

lemma notify_owner_mapped:
  assumes "table owner = Some m" and "m \<noteq> []"
  shows "filter is_run (new_events w (snd (notify_owner table owner typ name w)))
           = [Run [''msg'', ''/server:'' @ m, last (split_on backslash owner), removal_message typ name]]"
  using assms
  by (simp add: notify_owner_def send_msg_to_user_def new_events_def Let_def split: option.splits)

lemma notify_owner_unmapped:
  assumes "table owner = None"
  shows "notify_owner table owner typ name w = (Inr (), print (Warn_no_mapping owner) w)"
  using assms by (simp add: notify_owner_def)

lemma notify_owner_extends: "extends (\<lambda>ev. True) w (snd (notify_owner table owner typ name w))"
  by (simp add: notify_owner_def send_msg_to_user_def extends_def Let_def split: option.splits)

lemma process_name_pipeline:
  "process_name quarantine_dir = pipeline (delete_path quarantine_dir) user_to_machine"
  "process_name2 = pipeline delete_path2 user_to_machine2"
  by (intro ext; simp add: process_name_def process_name2_def pipeline_def)+

text \<open>
  The commands a run of the pipeline hands to \<^verbatim>\<open>subprocess.run\<close>, for a deletion that
  raises nothing and runs no command, and a table without empty values.
\<close>

lemma pipeline_run:
  fixes delete table path is_folder w
  assumes del_quiet: "\<And>v. quiet v (snd (delete path is_folder 3 2 v))"
    and del_ok: "\<And>v. \<exists>r. fst (delete path is_folder 3 2 v) = Inr r"
    and tab: "\<And>u m. table u = Some m \<Longrightarrow> m \<noteq> []"
  defines "name \<equiv> basename path"
    and "kind \<equiv> (if is_folder then ''Folder'' else ''File'')"
    and "owner \<equiv> fst (get_owner path w)"
    and "w' \<equiv> snd (pipeline delete table path is_folder w)"
  shows "filter is_run (new_events w w')
           = (if verdict name w = Some True
              then (case table owner of
                      None \<Rightarrow> []
                    | Some m \<Rightarrow> [Run [''msg'', ''/server:'' @ m, last (split_on backslash owner),
                                       removal_message kind name]])
              else [])
       \<and> (if verdict name w = Some True \<and> table owner = None
          then Print (Warn_no_mapping owner) \<in> set (new_events w w') else True)"
proof -
  obtain o1 w1 where g: "get_owner path w = (o1, w1)" by (cases "get_owner path w")
  then have o1: "o1 = owner" by (simp add: owner_def)
  from get_owner_quiet[of w path] g have q1: "quiet w w1" and l1: "llm w1 = llm w" by simp_all
  define w1' where "w1' = print (Detected kind name owner) w1"
  have q1': "quiet w w1'" using q1 unfolding w1'_def by simp
  obtain c w2 where c: "classify name w1' = (c, w2)" by (cases "classify name w1'")
  from classify_quiet[of w1' name] c have "quiet w1' w2" by simp
  with q1' have q2: "quiet w w2" by (rule quiet_trans)
  have "fst (classify name w1') = fst (classify name w)"
    by (rule classify_llm) (simp add: w1'_def l1)
  with c have v: "verdict name w = (case c of Inl e \<Rightarrow> None | Inr nf \<Rightarrow> Some (truthy nf))"
    by (simp add: verdict_def)
  have P: "pipeline delete table path is_folder w =
      (case c of
         Inl e \<Rightarrow> (Inl e, w2)
       | Inr name_found \<Rightarrow>
           if truthy name_found then
             (case delete path is_folder 3 2 (print (Alert (lower kind) name owner) w2) of
                (Inl e, w3) \<Rightarrow> (Inl e, w3)
              | (Inr deleted, w3) \<Rightarrow> notify_owner table owner kind name w3)
           else (Inr (), print (Info_clean (lower kind) name) w2))"
    using g c o1 unfolding name_def kind_def w1'_def by (simp add: pipeline_def Let_def)
  show ?thesis
  proof (cases "verdict name w = Some True")
    case False
    have "filter is_run (new_events w w') = []"
    proof (cases c)
      case (Inl e)
      with P have "w' = w2" by (simp add: w'_def)
      with quiet_runs[OF q2, of "\<lambda>ev. True" w2] show ?thesis by simp
    next
      case (Inr nf)
      with v False have "\<not> truthy nf" by simp
      with P Inr have w': "w' = print (Info_clean (lower kind) name) w2" by (simp add: w'_def)
      have "quiet w w'" unfolding w' using q2 by simp
      from quiet_runs[OF this, of "\<lambda>ev. True" w'] show ?thesis by simp
    qed
    with False show ?thesis by simp
  next
    case True
    with v obtain nf where nf: "c = Inr nf" "truthy nf" by (cases c) auto
    define wa where "wa = print (Alert (lower kind) name owner) w2"
    obtain r w3 where d: "delete path is_folder 3 2 wa = (r, w3)"
      by (cases "delete path is_folder 3 2 wa")
    from del_ok[of wa] d obtain deleted where r: "r = Inr deleted" by auto
    have "quiet wa w3" using del_quiet[of wa] d by simp
    moreover have "quiet w wa" unfolding wa_def using q2 by simp
    ultimately have q3: "quiet w w3" by (rule quiet_trans[rotated])
    have w': "w' = snd (notify_owner table owner kind name w3)"
      using P nf d r by (simp add: w'_def wa_def)
    have ext: "extends (\<lambda>ev. True) w3 w'" unfolding w' by (rule notify_owner_extends)
    note qr = quiet_runs[OF q3 ext]
    show ?thesis
    proof (cases "table owner")
      case None
      with notify_owner_unmapped[of table owner kind name w3]
      have "new_events w3 w' = [Print (Warn_no_mapping owner)]"
        by (simp add: w' new_events_def)
      with qr None True show ?thesis by auto
    next
      case (Some m)
      from tab[OF Some] have ne: "m \<noteq> []" .
      have "filter is_run (new_events w3 (snd (notify_owner table owner kind name w3)))
           = [Run [''msg'', ''/server:'' @ m, last (split_on backslash owner), removal_message kind name]]"
        using Some ne by (rule notify_owner_mapped)
      with Some qr True show ?thesis by (simp add: w')
    qed
  qed
qed

lemma process_name_runs:
  "filter is_run (new_events w (snd (process_name quarantine_dir path is_folder w)))
     = (if verdict (basename path) w = Some True
        then (case user_to_machine (fst (get_owner path w)) of
                None \<Rightarrow> []
              | Some m \<Rightarrow> [Run [''msg'', ''/server:'' @ m,
                                 last (split_on backslash (fst (get_owner path w))),
                                 removal_message (if is_folder then ''Folder'' else ''File'')
                                   (basename path)]])
        else [])
   \<and> (if verdict (basename path) w = Some True \<and> user_to_machine (fst (get_owner path w)) = None
      then Print (Warn_no_mapping (fst (get_owner path w)))
             \<in> set (new_events w (snd (process_name quarantine_dir path is_folder w)))
      else True)"
  unfolding process_name_pipeline
  by (rule pipeline_run) (simp_all add: quiet_delete_path delete_path_no_raise table_values)

lemma process_name2_runs:
  "filter is_run (new_events w (snd (process_name2 path is_folder w)))
     = (if verdict (basename path) w = Some True
        then (case user_to_machine2 (fst (get_owner path w)) of
                None \<Rightarrow> []
              | Some m \<Rightarrow> [Run [''msg'', ''/server:'' @ m,
                                 last (split_on backslash (fst (get_owner path w))),
                                 removal_message (if is_folder then ''Folder'' else ''File'')
                                   (basename path)]])
        else [])
   \<and> (if verdict (basename path) w = Some True \<and> user_to_machine2 (fst (get_owner path w)) = None
      then Print (Warn_no_mapping (fst (get_owner path w)))
             \<in> set (new_events w (snd (process_name2 path is_folder w)))
      else True)"
  unfolding process_name_pipeline
  by (rule pipeline_run) (simp_all add: delete_path2_eq quiet_delete_path delete_path_no_raise table_values)


lemma list_ex_filter: "list_ex P xs = (filter P xs \<noteq> [])"
  by (induction xs) auto

text \<open>
  Claim C3. In every run of \<^verbatim>\<open>process_name\<close>, the \<^verbatim>\<open>msg\<close> command is run (the
  notification is attempted) if and only if the verdict of the classification is true
  and the table has a machine for the owner. The condition does not mention
  \<^verbatim>\<open>delete_path\<close>: whatever it did and returned, the notification is attempted. When the
  verdict is true and the table has no machine for the owner, the line
  \<^verbatim>\<open>[WARNING] No client machine mapping found\<close> is printed and no command is run. This
  holds for both files, each with its own table. The witness has a run whose deletion
  fails and whose notification is attempted, and a run for an owner not in the table.
\<close>

theorem notification_iff_verdict_and_mapping:
  "(list_ex is_run (new_events w (snd (process_name quarantine_dir path is_folder w)))
      \<longleftrightarrow> verdict (basename path) w = Some True
          \<and> user_to_machine (fst (get_owner path w)) \<noteq> None)
   \<and> (verdict (basename path) w = Some True \<and> user_to_machine (fst (get_owner path w)) = None
        \<longrightarrow> Print (Warn_no_mapping (fst (get_owner path w)))
               \<in> set (new_events w (snd (process_name quarantine_dir path is_folder w)))
            \<and> \<not> list_ex is_run (new_events w (snd (process_name quarantine_dir path is_folder w))))
   \<and> (list_ex is_run (new_events w (snd (process_name2 path is_folder w)))
      \<longleftrightarrow> verdict (basename path) w = Some True
          \<and> user_to_machine2 (fst (get_owner path w)) \<noteq> None)
   \<and> (verdict (basename path) w = Some True \<and> user_to_machine2 (fst (get_owner path w)) = None
        \<longrightarrow> Print (Warn_no_mapping (fst (get_owner path w)))
               \<in> set (new_events w (snd (process_name2 path is_folder w)))
            \<and> \<not> list_ex is_run (new_events w (snd (process_name2 path is_folder w))))"
  using process_name_runs[of w quarantine_dir path is_folder] process_name2_runs[of w path is_folder]
  by (auto simp: list_ex_filter split: option.splits if_splits)

theorem notification_iff_verdict_and_mapping_witness:
  "verdict (basename notes_file) (example_world (in_use notes_file) reply_true) = Some True
   \<and> user_to_machine (fst (get_owner notes_file (example_world (in_use notes_file) reply_true)))
       = Some ''C185LX082414174''
   \<and> fst (delete_path None notes_file False 3 2 (example_world (in_use notes_file) reply_true))
       = Inr (Some False)
   \<and> list_ex is_run (new_events (example_world (in_use notes_file) reply_true)
        (snd (process_name None notes_file False (example_world (in_use notes_file) reply_true))))
   \<and> list_ex is_run (new_events (example_world (in_use notes_file) reply_true)
        (snd (process_name2 notes_file False (example_world (in_use notes_file) reply_true))))
   \<and> verdict (basename notes_file) (unowned (example_world no_fault reply_true)) = Some True
   \<and> fst (get_owner notes_file (unowned (example_world no_fault reply_true))) = ''Unknown''
   \<and> user_to_machine ''Unknown'' = None \<and> user_to_machine2 ''Unknown'' = None
   \<and> Print (Warn_no_mapping ''Unknown'')
        \<in> set (new_events (unowned (example_world no_fault reply_true))
             (snd (process_name (Some quarantine_folder) notes_file False
                    (unowned (example_world no_fault reply_true)))))
   \<and> \<not> list_ex is_run (new_events (unowned (example_world no_fault reply_true))
             (snd (process_name (Some quarantine_folder) notes_file False
                    (unowned (example_world no_fault reply_true)))))
   \<and> \<not> list_ex is_run (new_events (unowned (example_world no_fault reply_true))
             (snd (process_name2 notes_file False (unowned (example_world no_fault reply_true)))))"
proof -
  have v1: "verdict (basename notes_file) (example_world (in_use notes_file) reply_true) = Some True"
    by code_simp
  have m1: "user_to_machine (fst (get_owner notes_file (example_world (in_use notes_file) reply_true)))
       = Some ''C185LX082414174''"
    by code_simp
  have m1': "user_to_machine2 (fst (get_owner notes_file (example_world (in_use notes_file) reply_true)))
       = Some ''C185LX082414174''"
    by code_simp
  have d1: "fst (delete_path None notes_file False 3 2 (example_world (in_use notes_file) reply_true))
       = Inr (Some False)"
    by code_simp
  have v2: "verdict (basename notes_file) (unowned (example_world no_fault reply_true)) = Some True"
    by code_simp
  have o2: "fst (get_owner notes_file (unowned (example_world no_fault reply_true))) = ''Unknown''"
    by code_simp
  have m2: "user_to_machine ''Unknown'' = None" "user_to_machine2 ''Unknown'' = None"
    by code_simp+
  show ?thesis
    using v1 m1 m1' d1 v2 o2 m2
      notification_iff_verdict_and_mapping
        [of "example_world (in_use notes_file) reply_true" None notes_file False]
      notification_iff_verdict_and_mapping
        [of "unowned (example_world no_fault reply_true)" "Some quarantine_folder" notes_file False]
    by simp
qed

text \<open>
  Claim C10. In every run of \<^verbatim>\<open>process_name\<close> with a true verdict and an owner the
  table has a machine for, exactly one command is run: \<^verbatim>\<open>msg\<close> to that machine and
  the owner's bare user name, with the message of the f-string, which ends with
  \<^verbatim>\<open>It has been removed. Please rename it according to the policy.\<close> The value
  \<^verbatim>\<open>delete_path\<close> returned is not read, and nothing in the statement depends on what
  \<^verbatim>\<open>delete_path\<close> did. This holds for both files. In the witness the deletion fails,
  the entry is still there, and the message says it has been removed.
\<close>

theorem removal_message_always_sent:
  assumes "verdict (basename path) w = Some True"
  shows "(user_to_machine (fst (get_owner path w)) = Some m \<longrightarrow>
            filter is_run (new_events w (snd (process_name quarantine_dir path is_folder w)))
              = [Run [''msg'', ''/server:'' @ m,
                      last (split_on backslash (fst (get_owner path w))),
                      removal_message (if is_folder then ''Folder'' else ''File'') (basename path)]])
       \<and> (user_to_machine2 (fst (get_owner path w)) = Some m \<longrightarrow>
            filter is_run (new_events w (snd (process_name2 path is_folder w)))
              = [Run [''msg'', ''/server:'' @ m,
                      last (split_on backslash (fst (get_owner path w))),
                      removal_message (if is_folder then ''Folder'' else ''File'') (basename path)]])
       \<and> suffix ''It has been removed. Please rename it according to the policy.''
            (removal_message (if is_folder then ''Folder'' else ''File'') (basename path))"
proof -
  have "suffix ''It has been removed. Please rename it according to the policy.''
            (removal_message kind name)" for kind name
    unfolding removal_message_def suffix_def by (simp del: append_assoc add: append_assoc[symmetric])
  then show ?thesis
    using assms process_name_runs[of w quarantine_dir path is_folder]
      process_name2_runs[of w path is_folder]
    by simp
qed

theorem removal_message_always_sent_witness:
  "verdict (basename notes_file) (example_world (in_use notes_file) reply_true) = Some True
   \<and> user_to_machine (fst (get_owner notes_file (example_world (in_use notes_file) reply_true)))
       = Some ''C185LX082414174''
   \<and> user_to_machine2 (fst (get_owner notes_file (example_world (in_use notes_file) reply_true)))
       = Some ''C185LX082414174''
   \<and> filter is_run (new_events (example_world (in_use notes_file) reply_true)
        (snd (process_name None notes_file False (example_world (in_use notes_file) reply_true))))
       = [Run [''msg'', ''/server:C185LX082414174'', ''HEKOLLI'',
               removal_message ''File'' ''Rahul_Notes.docx'']]
   \<and> filter is_run (new_events (example_world (in_use notes_file) reply_true)
        (snd (process_name2 notes_file False (example_world (in_use notes_file) reply_true))))
       = [Run [''msg'', ''/server:C185LX082414174'', ''HEKOLLI'',
               removal_message ''File'' ''Rahul_Notes.docx'']]
   \<and> suffix ''It has been removed. Please rename it according to the policy.''
        (removal_message ''File'' ''Rahul_Notes.docx'')
   \<and> fst (delete_path None notes_file False 3 2 (example_world (in_use notes_file) reply_true))
       = Inr (Some False)
   \<and> os_path_exists notes_file
        (snd (process_name None notes_file False (example_world (in_use notes_file) reply_true)))"
proof -
  have v1: "verdict (basename notes_file) (example_world (in_use notes_file) reply_true) = Some True"
    by code_simp
  have m1: "user_to_machine (fst (get_owner notes_file (example_world (in_use notes_file) reply_true)))
       = Some ''C185LX082414174''"
    by code_simp
  have m1': "user_to_machine2 (fst (get_owner notes_file (example_world (in_use notes_file) reply_true)))
       = Some ''C185LX082414174''"
    by code_simp
  have u: "last (split_on backslash (fst (get_owner notes_file (example_world (in_use notes_file) reply_true))))
       = ''HEKOLLI''"
    by code_simp
  have b: "basename notes_file = ''Rahul_Notes.docx''"
    by code_simp
  have d1: "fst (delete_path None notes_file False 3 2 (example_world (in_use notes_file) reply_true))
       = Inr (Some False)"
    by code_simp
  have x: "os_path_exists notes_file
        (snd (process_name None notes_file False (example_world (in_use notes_file) reply_true)))"
    by code_simp
  show ?thesis
    using v1 m1 m1' u b d1 x
      removal_message_always_sent [OF v1, of "''C185LX082414174''" None False]
    by simp
qed

subsection \<open>The two files side by side\<close>

lemma new_events_subset:
  "trace w1 = trace w @ pre \<Longrightarrow> extends P w1 w2 \<Longrightarrow> extends Q w2 w' \<Longrightarrow>
     set (new_events w1 w2) \<subseteq> set (new_events w w')"
  by (auto simp: extends_def new_events_def)

lemma quarantine_skipped:
  assumes "\<not> list_ex quarantine_line (new_events w (snd (delete_attempts qd p isf m d atts w)))"
  shows "delete_attempts qd p isf m d atts w = delete_attempts None p isf m d atts w"
  using assms
proof (induction atts arbitrary: w)
  case Nil
  then show ?case by simp
next
  case (Cons k rest)
  show ?case
  proof (cases rule: delete_attempts_step[of w p isf qd m d k rest])
    case (ok w1)
    then show ?thesis by simp
  next
    case (retry e w1)
    from retry(1) obtain evs where t: "trace w1 = trace w @ evs" by (auto simp: extends_def)
    define w3 where "w3 = slept d (print (Warn_attempt k p e) w1)"
    define w' where "w' = snd (delete_attempts qd p isf m d rest w3)"
    have t3: "trace w3 = trace w @ (evs @ [Print (Warn_attempt k p e), Sleep d])"
      by (simp add: w3_def t)
    have ne: "new_events w w' = (evs @ [Print (Warn_attempt k p e), Sleep d]) @ new_events w3 w'"
      using t3 delete_attempts_extends[of w3 qd p isf m d rest]
      unfolding w'_def by (rule new_events_split)
    have res: "snd (delete_attempts qd p isf m d (k # rest) w) = w'"
      using retry(5) by (simp add: w'_def w3_def)
    from Cons.prems have "\<not> list_ex quarantine_line (new_events w3 w')"
      unfolding res ne by simp
    then have "delete_attempts qd p isf m d rest w3 = delete_attempts None p isf m d rest w3"
      unfolding w'_def by (rule Cons.IH)
    then show ?thesis
      using retry(2,3,4) by (simp add: time_sleep_ok w3_def)
  next
    case (raise e w1)
    then show ?thesis by (simp add: time_sleep_neg)
  next
    case (give_up e w1)
    then show ?thesis by simp
  next
    case (moved e w1 q w3)
    from moved(1) obtain evs where t: "trace w1 = trace w @ evs" by (auto simp: extends_def)
    have "new_events w w3 = evs @ [Print (Warn_attempt k p e), Print (Act_quarantined (join q (basename p)))]"
      by (rule new_events_append) (simp add: t quarantine_trace[OF moved(5)])
    with Cons.prems moved(6) show ?thesis by simp
  next
    case (stuck e w1 q w3 move_err)
    from stuck(1) obtain evs where t: "trace w1 = trace w @ evs" by (auto simp: extends_def)
    have "new_events w (print (Err_failed p m) (print (Err_quarantine move_err) w3))
              = evs @ [Print (Warn_attempt k p e), Print (Err_quarantine move_err), Print (Err_failed p m)]"
      by (rule new_events_append) (simp add: t quarantine_trace[OF stuck(5)])
    with Cons.prems stuck(6) show ?thesis by simp
  qed
qed

lemma delete_path_quarantine_skipped:
  assumes "\<not> list_ex quarantine_line (new_events w (snd (delete_path qd p isf m d w)))"
  shows "delete_path qd p isf m d w = delete_path2 p isf m d w"
proof (cases "os_path_exists p w")
  case False
  then show ?thesis by (simp add: delete_path_def delete_path2_def)
next
  case True
  with assms have "\<not> list_ex quarantine_line
      (new_events w (snd (delete_attempts qd p isf m d [1..m] w)))"
    by (simp add: delete_path_def)
  from quarantine_skipped[OF this] True show ?thesis
    by (simp add: delete_path_def delete_path2_eq)
qed

lemma tables_differ_by_one:
  "user_to_machine2 = user_to_machine(''APAC'' @ [backslash] @ ''SINGSID'' \<mapsto> ''C185LX083361246'')"
  "user_to_machine (''APAC'' @ [backslash] @ ''SINGSID'') = None"
  by (auto simp: user_to_machine_def user_to_machine2_def user_to_machine_table_def
      user_to_machine_table2_def)

lemma tables_agree: "user_to_machine owner \<noteq> None \<Longrightarrow> user_to_machine2 owner = user_to_machine owner"
  using tables_differ_by_one(2) by (cases "owner = ''APAC'' @ [backslash] @ ''SINGSID''")
    (simp_all add: tables_differ_by_one(1))

lemma delete_path_extends_any: "extends (\<lambda>ev. True) w (snd (delete_path qd p isf m d w))"
  using quiet_delete_path[of w qd p isf m d] unfolding quiet_def
  by (rule extends_mono) simp


lemma notify_owner_cong:
  "table owner = table' owner \<Longrightarrow>
     notify_owner table owner kind name w = notify_owner table' owner kind name w"
  by (simp add: notify_owner_def)

lemma process_names_agree:
  assumes nq: "\<not> list_ex quarantine_line
                  (new_events w (snd (process_name quarantine_dir path is_folder w)))"
    and tab: "user_to_machine2 (fst (get_owner path w)) = user_to_machine (fst (get_owner path w))"
  shows "process_name quarantine_dir path is_folder w = process_name2 path is_folder w"
proof -
  define name where "name = basename path"
  define kind where "kind = (if is_folder then ''Folder'' else ''File'')"
  define owner where "owner = fst (get_owner path w)"
  obtain o1 w1 where g: "get_owner path w = (o1, w1)" by (cases "get_owner path w")
  then have o1: "o1 = owner" by (simp add: owner_def)
  from get_owner_quiet[of w path] g have q1: "quiet w w1" by simp
  define w1' where "w1' = print (Detected kind name owner) w1"
  have q1': "quiet w w1'" using q1 unfolding w1'_def by simp
  obtain c w2 where c: "classify name w1' = (c, w2)" by (cases "classify name w1'")
  from classify_quiet[of w1' name] c have "quiet w1' w2" by simp
  with q1' have q2: "quiet w w2" by (rule quiet_trans)
  define wa where "wa = print (Alert (lower kind) name owner) w2"
  have qa: "quiet w wa" unfolding wa_def using q2 by simp
  have P1: "process_name quarantine_dir path is_folder w =
      (case c of
         Inl e \<Rightarrow> (Inl e, w2)
       | Inr name_found \<Rightarrow>
           if truthy name_found then
             (case delete_path quarantine_dir path is_folder 3 2 wa of
                (Inl e, w3) \<Rightarrow> (Inl e, w3)
              | (Inr deleted, w3) \<Rightarrow> notify_owner user_to_machine owner kind name w3)
           else (Inr (), print (Info_clean (lower kind) name) w2))"
    using g c o1 unfolding name_def kind_def w1'_def wa_def
    by (simp add: process_name_def Let_def)
  have P2: "process_name2 path is_folder w =
      (case c of
         Inl e \<Rightarrow> (Inl e, w2)
       | Inr name_found \<Rightarrow>
           if truthy name_found then
             (case delete_path2 path is_folder 3 2 wa of
                (Inl e, w3) \<Rightarrow> (Inl e, w3)
              | (Inr deleted, w3) \<Rightarrow> notify_owner user_to_machine2 owner kind name w3)
           else (Inr (), print (Info_clean (lower kind) name) w2))"
    using g c o1 unfolding name_def kind_def w1'_def wa_def
    by (simp add: process_name2_def Let_def)
  show ?thesis
  proof (cases c)
    case (Inl e)
    with P1 P2 show ?thesis by simp
  next
    case (Inr nf)
    show ?thesis
    proof (cases "truthy nf")
      case False
      with Inr P1 P2 show ?thesis by simp
    next
      case True
      obtain r w3 where d: "delete_path quarantine_dir path is_folder 3 2 wa = (r, w3)"
        by (cases "delete_path quarantine_dir path is_folder 3 2 wa")
      define w' where "w' = snd (process_name quarantine_dir path is_folder w)"
      have w': "w' = (case r of Inl e \<Rightarrow> w3
                      | Inr deleted \<Rightarrow> snd (notify_owner user_to_machine owner kind name w3))"
        using P1 Inr True d by (simp add: w'_def split: sum.splits)
      have e3: "extends (\<lambda>ev. True) w3 w'"
        unfolding w' using notify_owner_extends[of w3 user_to_machine owner kind name]
        by (cases r) simp_all
      from qa obtain pre where t: "trace wa = trace w @ pre" by (auto simp: quiet_def extends_def)
      have ea: "extends (\<lambda>ev. True) wa w3"
        using delete_path_extends_any[of wa quarantine_dir path is_folder 3 2] d by simp
      from new_events_subset[OF t ea e3] nq
      have "\<not> list_ex quarantine_line (new_events wa w3)"
        unfolding w'_def by (auto simp: list_ex_iff)
      with d have "delete_path quarantine_dir path is_folder 3 2 wa
                   = delete_path2 path is_folder 3 2 wa"
        using delete_path_quarantine_skipped[of wa quarantine_dir path is_folder 3 2] by simp
      moreover have "notify_owner user_to_machine owner kind name v
                     = notify_owner user_to_machine2 owner kind name v" for v
        by (rule notify_owner_cong) (simp add: tab owner_def)
      ultimately show ?thesis using P1 P2 Inr True by (simp split: prod.splits sum.splits)
    qed
  qed
qed

text \<open>
  Claim C8. The two files implement the same pipeline but for two things.
  \<^item> The table of \<^verbatim>\<open>guardianAI2.py\<close> is the table of \<^verbatim>\<open>guardianAI.py\<close> with one more
    entry, for \<^verbatim>\<open>APAC\SINGSID\<close>, a key the first table does not have.
  \<^item> \<^verbatim>\<open>delete_path\<close> of \<^verbatim>\<open>guardianAI2.py\<close> is \<^verbatim>\<open>delete_path\<close> of \<^verbatim>\<open>guardianAI.py\<close> with no
    quarantine directory: after the last failed attempt it fails.
  For every input whose run of \<^verbatim>\<open>guardianAI.py\<close> does not enter the quarantine branch
  (none of its two lines is printed) and whose owner is in both tables, the two
  \<^verbatim>\<open>process_name\<close> give the same result and leave the same world: the same file system,
  the same trace of lines, sleeps and commands.
\<close>

theorem variants_agree:
  "user_to_machine2
     = user_to_machine(''APAC'' @ [backslash] @ ''SINGSID'' \<mapsto> ''C185LX083361246'')
   \<and> user_to_machine (''APAC'' @ [backslash] @ ''SINGSID'') = None
   \<and> delete_path2 path is_folder max_retries retry_delay w
       = delete_path None path is_folder max_retries retry_delay w
   \<and> (\<not> list_ex quarantine_line
          (new_events w (snd (process_name quarantine_dir path is_folder w)))
       \<and> user_to_machine (fst (get_owner path w)) \<noteq> None
       \<and> user_to_machine2 (fst (get_owner path w)) \<noteq> None
       \<longrightarrow> process_name quarantine_dir path is_folder w = process_name2 path is_folder w)"
  using tables_differ_by_one delete_path2_eq[of path is_folder max_retries retry_delay w]
    process_names_agree[of w quarantine_dir path is_folder]
    tables_agree[of "fst (get_owner path w)"]
  by blast

theorem variants_agree_witness:
  "\<not> list_ex quarantine_line
       (new_events (example_world no_fault reply_true)
          (snd (process_name (Some quarantine_folder) report True
                  (example_world no_fault reply_true))))
   \<and> user_to_machine (fst (get_owner report (example_world no_fault reply_true))) \<noteq> None
   \<and> user_to_machine2 (fst (get_owner report (example_world no_fault reply_true))) \<noteq> None
   \<and> process_name (Some quarantine_folder) report True (example_world no_fault reply_true)
       = process_name2 report True (example_world no_fault reply_true)
   \<and> \<not> os_path_exists report
         (snd (process_name2 report True (example_world no_fault reply_true)))
   \<and> list_ex quarantine_line
       (new_events (example_world (in_use notes_file) reply_true)
          (snd (process_name (Some quarantine_folder) notes_file False
                  (example_world (in_use notes_file) reply_true))))
   \<and> \<not> os_path_exists notes_file
         (snd (process_name (Some quarantine_folder) notes_file False
                 (example_world (in_use notes_file) reply_true)))
   \<and> os_path_exists notes_file
         (snd (process_name2 notes_file False (example_world (in_use notes_file) reply_true)))"
proof -
  have h1: "\<not> list_ex quarantine_line
       (new_events (example_world no_fault reply_true)
          (snd (process_name (Some quarantine_folder) report True
                  (example_world no_fault reply_true))))"
    by code_simp
  have h2: "user_to_machine (fst (get_owner report (example_world no_fault reply_true))) \<noteq> None"
    by code_simp
  have h3: "user_to_machine2 (fst (get_owner report (example_world no_fault reply_true))) \<noteq> None"
    by code_simp
  have a: "\<not> os_path_exists report
         (snd (process_name2 report True (example_world no_fault reply_true)))"
    by code_simp
  have b: "list_ex quarantine_line
       (new_events (example_world (in_use notes_file) reply_true)
          (snd (process_name (Some quarantine_folder) notes_file False
                  (example_world (in_use notes_file) reply_true))))"
    by code_simp
  have c: "\<not> os_path_exists notes_file
         (snd (process_name (Some quarantine_folder) notes_file False
                 (example_world (in_use notes_file) reply_true)))"
    by code_simp
  have d: "os_path_exists notes_file
         (snd (process_name2 notes_file False (example_world (in_use notes_file) reply_true)))"
    by code_simp
  show ?thesis
    using h1 h2 h3 a b c d
      variants_agree [of report True 3 2 "example_world no_fault reply_true" "Some quarantine_folder"]
    by simp
qed

end
